theory Spec2Isabelle
  imports Complex_Main
begin

section \<open>JSON values\<close>

text \<open>
  The payloads that travel through \<^verbatim>\<open>server.py\<close> are whatever \<^verbatim>\<open>r.json()\<close> returns
  and whatever dict literals the handlers build: \<^verbatim>\<open>None\<close>, \<^verbatim>\<open>bool\<close>, \<^verbatim>\<open>int\<close>,
  \<^verbatim>\<open>float\<close>, \<^verbatim>\<open>str\<close>, \<^verbatim>\<open>list\<close> and \<^verbatim>\<open>dict\<close> with string keys. A dict is an
  association list in insertion order. Strings are byte strings: a character at or above
  0x80 stands for (part of) a non-ASCII character, which \<^verbatim>\<open>ensure_ascii=False\<close> leaves
  as it is.

  A float is not computed with anywhere in \<^verbatim>\<open>server.py\<close>; it is only written out again.
  A finite float is therefore kept as the text that \<^verbatim>\<open>float.__repr__\<close> gives for it
  (\<^verbatim>\<open>1.5\<close>, \<^verbatim>\<open>-0.0\<close>, \<^verbatim>\<open>1e+16\<close>); the three values that are not finite are
  values of their own. \<^verbatim>\<open>json.loads\<close> returns them for the texts \<^verbatim>\<open>NaN\<close>,
  \<^verbatim>\<open>Infinity\<close> and \<^verbatim>\<open>-Infinity\<close>, and an infinity for a number beyond the range of a
  double, such as \<^verbatim>\<open>1e400\<close>.
\<close>

datatype pyfloat = Finite string | PosInf | NegInf | NaN

datatype jvalue =
    JNull
  | JBool bool
  | JInt int
  | JFloat pyfloat
  | JStr string
  | JArr "jvalue list"
  | JObj "(string \<times> jvalue) list"

subsection \<open>The text that \<^verbatim>\<open>json.dumps(obj, ensure_ascii=False, indent=...)\<close> writes\<close>

text \<open>\<^verbatim>\<open>int.__repr__\<close>: decimal digits, a leading minus sign for negative numbers.\<close>

fun str_nat :: "nat \<Rightarrow> string" where
  "str_nat n =
     (if n < 10 then [char_of (48 + n)]
      else str_nat (n div 10) @ [char_of (48 + n mod 10)])"

definition str_int :: "int \<Rightarrow> string" where
  "str_int i = (if i < 0 then CHR ''-'' # str_nat (nat (- i)) else str_nat (nat i))"

text \<open>
  \<^verbatim>\<open>floatstr\<close> with the default \<^verbatim>\<open>allow_nan=True\<close>, which neither call in
  \<^verbatim>\<open>server.py\<close> changes: the three values that are not finite are written as
  \<^verbatim>\<open>NaN\<close>, \<^verbatim>\<open>Infinity\<close> and \<^verbatim>\<open>-Infinity\<close>, a finite float as its \<^verbatim>\<open>repr\<close>.
\<close>

fun floatstr :: "pyfloat \<Rightarrow> string" where
  "floatstr NaN = ''NaN''"
| "floatstr PosInf = ''Infinity''"
| "floatstr NegInf = ''-Infinity''"
| "floatstr (Finite repr) = repr"

text \<open>
  \<^verbatim>\<open>encode_basestring\<close>: the characters matched by
  \<^verbatim>\<open>ESCAPE = [\x00-\x1f\\"\b\f\n\r\t]\<close> are replaced through \<^verbatim>\<open>ESCAPE_DCT\<close>;
  a control character without a short escape becomes \<^verbatim>\<open>\u00XX\<close> in lower-case hex.
\<close>

definition hex_char :: "nat \<Rightarrow> char" where
  "hex_char d = (if d < 10 then char_of (48 + d) else char_of (87 + d))"

definition escape_char :: "char \<Rightarrow> string" where
  "escape_char c =
     (if c = CHR 0x5C then [CHR 0x5C, CHR 0x5C]
      else if c = CHR 0x22 then [CHR 0x5C, CHR 0x22]
      else if c = CHR 0x08 then [CHR 0x5C, CHR ''b'']
      else if c = CHR 0x0C then [CHR 0x5C, CHR ''f'']
      else if c = CHR 0x0A then [CHR 0x5C, CHR ''n'']
      else if c = CHR 0x0D then [CHR 0x5C, CHR ''r'']
      else if c = CHR 0x09 then [CHR 0x5C, CHR ''t'']
      else if (of_char c :: nat) < 0x20 then
        [CHR 0x5C, CHR ''u'', CHR ''0'', CHR ''0'',
         hex_char (of_char c div 16), hex_char (of_char c mod 16)]
      else [c])"

definition encode_basestring :: "string \<Rightarrow> string" where
  "encode_basestring s = CHR 0x22 # concat (map escape_char s) @ [CHR 0x22]"

text \<open>
  With \<^verbatim>\<open>indent=k\<close> every item starts on a line of its own, indented by
  \<^verbatim>\<open>k * level\<close> spaces, and the item separator is a bare comma; with
  \<^verbatim>\<open>indent=None\<close> there are no line breaks and the item separator is a comma and a
  space. The key separator is a colon and a space in both cases.
\<close>

definition newline_indent :: "nat option \<Rightarrow> nat \<Rightarrow> string" where
  "newline_indent indent level =
     (case indent of None \<Rightarrow> [] | Some k \<Rightarrow> CHR 0x0A # replicate (k * level) CHR '' '')"

definition item_separator :: "nat option \<Rightarrow> nat \<Rightarrow> string" where
  "item_separator indent level =
     (case indent of None \<Rightarrow> '', '' | Some k \<Rightarrow> '','' @ newline_indent indent level)"

fun iterencode :: "nat option \<Rightarrow> nat \<Rightarrow> jvalue \<Rightarrow> string"
and iterencode_list :: "nat option \<Rightarrow> nat \<Rightarrow> jvalue list \<Rightarrow> string"
and iterencode_dict :: "nat option \<Rightarrow> nat \<Rightarrow> (string \<times> jvalue) list \<Rightarrow> string"
where
  "iterencode indent level JNull = ''null''"
| "iterencode indent level (JBool b) = (if b then ''true'' else ''false'')"
| "iterencode indent level (JInt i) = str_int i"
| "iterencode indent level (JFloat x) = floatstr x"
| "iterencode indent level (JStr s) = encode_basestring s"
| "iterencode indent level (JArr xs) =
     (if xs = [] then ''[]''
      else ''['' @ newline_indent indent (Suc level) @ iterencode_list indent (Suc level) xs
           @ newline_indent indent level @ '']'')"
| "iterencode indent level (JObj kvs) =
     (if kvs = [] then ''{}''
      else ''{'' @ newline_indent indent (Suc level) @ iterencode_dict indent (Suc level) kvs
           @ newline_indent indent level @ ''}'')"
| "iterencode_list indent level [] = []"
| "iterencode_list indent level [x] = iterencode indent level x"
| "iterencode_list indent level (x # y # ys) =
     iterencode indent level x @ item_separator indent level
     @ iterencode_list indent level (y # ys)"
| "iterencode_dict indent level [] = []"
| "iterencode_dict indent level [(k, v)] =
     encode_basestring k @ '': '' @ iterencode indent level v"
| "iterencode_dict indent level ((k, v) # kv # kvs) =
     encode_basestring k @ '': '' @ iterencode indent level v @ item_separator indent level
     @ iterencode_dict indent level (kv # kvs)"

text \<open>How deep the containers of a value are nested: 0 for a scalar, 1 for a list or dict of scalars.\<close>

fun depth :: "jvalue \<Rightarrow> nat"
and depth_list :: "jvalue list \<Rightarrow> nat"
and depth_dict :: "(string \<times> jvalue) list \<Rightarrow> nat"
where
  "depth (JArr xs) = Suc (depth_list xs)"
| "depth (JObj kvs) = Suc (depth_dict kvs)"
| "depth v = 0"
| "depth_list [] = 0"
| "depth_list (x # xs) = max (depth x) (depth_list xs)"
| "depth_dict [] = 0"
| "depth_dict ((k, v) # kvs) = max (depth v) (depth_dict kvs)"

subsection \<open>Reading a JSON text\<close>

text \<open>
  What it means for a text to parse as JSON: a recursive-descent reader of the JSON
  grammar (RFC 8259). Whitespace is space, tab, line feed and carriage return. A number
  is \<^verbatim>\<open>-?(0|[1-9][0-9]*)(\.[0-9]+)?([eE][-+]?[0-9]+)?\<close>; without fraction and exponent
  it is read as an integer, otherwise as the float that has this text. \<^verbatim>\<open>NaN\<close>,
  \<^verbatim>\<open>Infinity\<close> and \<^verbatim>\<open>-Infinity\<close> are not JSON and are not read. A \<^verbatim>\<open>\u\<close> escape
  above 0x7F is not read either, so every text the reader accepts is JSON. The recursion
  is bounded by fuel; \<open>loads\<close> supplies the length of the text.
\<close>

definition is_ws :: "char \<Rightarrow> bool" where
  "is_ws c = (c = CHR '' '' \<or> c = CHR 0x09 \<or> c = CHR 0x0A \<or> c = CHR 0x0D)"

definition skip_ws :: "string \<Rightarrow> string" where
  "skip_ws s = dropWhile is_ws s"

definition is_digit :: "char \<Rightarrow> bool" where
  "is_digit c = (48 \<le> (of_char c :: nat) \<and> (of_char c :: nat) \<le> 57)"

definition nat_of_digits :: "string \<Rightarrow> nat" where
  "nat_of_digits ds = foldl (\<lambda>a c. 10 * a + (of_char c - 48)) 0 ds"

text \<open>The parts of a number, each with the text that is left: sign, integer part, fraction, exponent.\<close>

definition scan_sign :: "string \<Rightarrow> string \<times> string" where
  "scan_sign s =
     (case s of
        [] \<Rightarrow> ([], [])
      | c # cs \<Rightarrow> if c = CHR ''-'' then ([c], cs) else ([], s))"

definition scan_int :: "string \<Rightarrow> (string \<times> string) option" where
  "scan_int s =
     (case s of
        [] \<Rightarrow> None
      | c # cs \<Rightarrow>
          if c = CHR ''0'' then Some ([c], cs)
          else if is_digit c then Some (takeWhile is_digit s, dropWhile is_digit s)
          else None)"

definition scan_frac :: "string \<Rightarrow> string \<times> string" where
  "scan_frac s =
     (case s of
        [] \<Rightarrow> ([], [])
      | c # cs \<Rightarrow>
          if c = CHR ''.'' \<and> takeWhile is_digit cs \<noteq> []
          then (c # takeWhile is_digit cs, dropWhile is_digit cs)
          else ([], s))"

definition scan_exp_sign :: "string \<Rightarrow> string \<times> string" where
  "scan_exp_sign s =
     (case s of
        [] \<Rightarrow> ([], [])
      | c # cs \<Rightarrow> if c = CHR ''+'' \<or> c = CHR ''-'' then ([c], cs) else ([], s))"

definition scan_exp :: "string \<Rightarrow> string \<times> string" where
  "scan_exp s =
     (case s of
        [] \<Rightarrow> ([], [])
      | c # cs \<Rightarrow>
          if c = CHR ''e'' \<or> c = CHR ''E'' then
            (case scan_exp_sign cs of
               (sg, ds) \<Rightarrow>
                 if takeWhile is_digit ds \<noteq> []
                 then (c # sg @ takeWhile is_digit ds, dropWhile is_digit ds)
                 else ([], s))
          else ([], s))"

definition parse_number :: "string \<Rightarrow> (jvalue \<times> string) option" where
  "parse_number s =
     (case scan_sign s of
        (sg, s1) \<Rightarrow>
          (case scan_int s1 of
             None \<Rightarrow> None
           | Some (ip, s2) \<Rightarrow>
               (case scan_frac s2 of
                  (fr, s3) \<Rightarrow>
                    (case scan_exp s3 of
                       (ex, s4) \<Rightarrow>
                         if fr = [] \<and> ex = [] then
                           Some (JInt (if sg = [] then int (nat_of_digits ip)
                                       else - int (nat_of_digits ip)), s4)
                         else Some (JFloat (Finite (sg @ ip @ fr @ ex)), s4)))))"

definition hex_val :: "char \<Rightarrow> nat option" where
  "hex_val c =
     (let n = (of_char c :: nat) in
      if 48 \<le> n \<and> n \<le> 57 then Some (n - 48)
      else if 97 \<le> n \<and> n \<le> 102 then Some (n - 87)
      else if 65 \<le> n \<and> n \<le> 70 then Some (n - 55)
      else None)"

definition hex4 :: "char \<Rightarrow> char \<Rightarrow> char \<Rightarrow> char \<Rightarrow> nat option" where
  "hex4 a b c d =
     (case (hex_val a, hex_val b, hex_val c, hex_val d) of
        (Some w, Some x, Some y, Some z) \<Rightarrow> Some (((w * 16 + x) * 16 + y) * 16 + z)
      | _ \<Rightarrow> None)"

definition unescape :: "char \<Rightarrow> char option" where
  "unescape e =
     (if e = CHR 0x22 then Some (CHR 0x22)
      else if e = CHR 0x5C then Some (CHR 0x5C)
      else if e = CHR ''/'' then Some (CHR ''/'')
      else if e = CHR ''b'' then Some (CHR 0x08)
      else if e = CHR ''f'' then Some (CHR 0x0C)
      else if e = CHR ''n'' then Some (CHR 0x0A)
      else if e = CHR ''r'' then Some (CHR 0x0D)
      else if e = CHR ''t'' then Some (CHR 0x09)
      else None)"

text \<open>The characters of a string after its opening quote, up to the closing quote.\<close>

fun scanstring :: "string \<Rightarrow> (string \<times> string) option" where
  "scanstring [] = None"
| "scanstring (c # cs) =
     (if c = CHR 0x22 then Some ([], cs)
      else if c = CHR 0x5C then
        (case cs of
           [] \<Rightarrow> None
         | e # cs' \<Rightarrow>
             if e = CHR ''u'' then
               (case cs' of
                  h1 # h2 # h3 # h4 # cs'' \<Rightarrow>
                    (case hex4 h1 h2 h3 h4 of
                       None \<Rightarrow> None
                     | Some n \<Rightarrow>
                         if n < 128
                         then map_option (\<lambda>(s, r). (char_of n # s, r)) (scanstring cs'')
                         else None)
                | _ \<Rightarrow> None)
             else
               (case unescape e of
                  None \<Rightarrow> None
                | Some ch \<Rightarrow> map_option (\<lambda>(s, r). (ch # s, r)) (scanstring cs')))
      else if (of_char c :: nat) < 0x20 then None
      else map_option (\<lambda>(s, r). (c # s, r)) (scanstring cs))"

definition strip_prefix :: "string \<Rightarrow> string \<Rightarrow> string option" where
  "strip_prefix p s = (if take (length p) s = p then Some (drop (length p) s) else None)"

fun parse_value :: "nat \<Rightarrow> string \<Rightarrow> (jvalue \<times> string) option"
and parse_array :: "nat \<Rightarrow> string \<Rightarrow> (jvalue list \<times> string) option"
and parse_object :: "nat \<Rightarrow> string \<Rightarrow> ((string \<times> jvalue) list \<times> string) option"
where
  "parse_value 0 s = None"
| "parse_value (Suc n) s =
     (case s of
        [] \<Rightarrow> None
      | c # cs \<Rightarrow>
          if c = CHR 0x22 then map_option (\<lambda>(x, r). (JStr x, r)) (scanstring cs)
          else if c = CHR ''{'' then
            (case skip_ws cs of
               [] \<Rightarrow> None
             | d # ds \<Rightarrow>
                 if d = CHR ''}'' then Some (JObj [], ds)
                 else map_option (\<lambda>(kvs, r). (JObj kvs, r)) (parse_object n (d # ds)))
          else if c = CHR ''['' then
            (case skip_ws cs of
               [] \<Rightarrow> None
             | d # ds \<Rightarrow>
                 if d = CHR '']'' then Some (JArr [], ds)
                 else map_option (\<lambda>(xs, r). (JArr xs, r)) (parse_array n (d # ds)))
          else if c = CHR ''n'' then map_option (Pair JNull) (strip_prefix ''null'' s)
          else if c = CHR ''t'' then map_option (Pair (JBool True)) (strip_prefix ''true'' s)
          else if c = CHR ''f'' then map_option (Pair (JBool False)) (strip_prefix ''false'' s)
          else parse_number s)"
| "parse_array 0 s = None"
| "parse_array (Suc n) s =
     (case parse_value n s of
        None \<Rightarrow> None
      | Some (x, r) \<Rightarrow>
          (case skip_ws r of
             [] \<Rightarrow> None
           | d # ds \<Rightarrow>
               if d = CHR '']'' then Some ([x], ds)
               else if d = CHR '','' then
                 map_option (\<lambda>(xs, r'). (x # xs, r')) (parse_array n (skip_ws ds))
               else None))"
| "parse_object 0 s = None"
| "parse_object (Suc n) s =
     (case s of
        [] \<Rightarrow> None
      | c # cs \<Rightarrow>
          if c \<noteq> CHR 0x22 then None
          else
            (case scanstring cs of
               None \<Rightarrow> None
             | Some (k, r) \<Rightarrow>
                 (case skip_ws r of
                    [] \<Rightarrow> None
                  | d # ds \<Rightarrow>
                      if d \<noteq> CHR '':'' then None
                      else
                        (case parse_value n (skip_ws ds) of
                           None \<Rightarrow> None
                         | Some (v, r') \<Rightarrow>
                             (case skip_ws r' of
                                [] \<Rightarrow> None
                              | e # es \<Rightarrow>
                                  if e = CHR ''}'' then Some ([(k, v)], es)
                                  else if e = CHR '','' then
                                    map_option (\<lambda>(kvs, r''). ((k, v) # kvs, r''))
                                      (parse_object n (skip_ws es))
                                  else None)))))"

definition loads :: "string \<Rightarrow> jvalue option" where
  "loads s =
     (case parse_value (length s) (skip_ws s) of
        None \<Rightarrow> None
      | Some (v, r) \<Rightarrow> if skip_ws r = [] then Some v else None)"


section \<open>The HTTP client and the interpreter\<close>

text \<open>
  \<^verbatim>\<open>httpx\<close> is outside the repository; the model keeps what the gateway observes of it.
  A response has a status code, the message that \<^verbatim>\<open>httpx\<close> words for the
  \<^verbatim>\<open>HTTPStatusError\<close> of that response (the gateway never reads it), its body text,
  and the outcome of \<^verbatim>\<open>r.json()\<close>, which either raises or returns the parsed body.
  An exception is classified the way the
  \<^verbatim>\<open>except\<close> clauses of \<^verbatim>\<open>_api_post\<close> test it: a subclass of
  \<^verbatim>\<open>httpx.TimeoutException\<close> (one per phase of the request), an
  \<^verbatim>\<open>httpx.HTTPStatusError\<close> carrying its response, or any other subclass of
  \<^verbatim>\<open>Exception\<close> with its class name. Each carries the text of \<^verbatim>\<open>str(e)\<close>.
  Signals that derive from \<^verbatim>\<open>BaseException\<close> only (task cancellation, interpreter
  exit) are not exceptions of this model.
\<close>

datatype timeout_phase = ConnectTimeout | ReadTimeout | WriteTimeout | PoolTimeout

datatype py_exception =
    TimeoutException timeout_phase string
  | HTTPStatusError string response
  | OtherException string string
and response =
    Response (status_code: nat) (status_error_message: string) (response_text: string)
      (json: "py_exception + jvalue")

fun type_name :: "py_exception \<Rightarrow> string" where
  "type_name (TimeoutException ConnectTimeout m) = ''ConnectTimeout''"
| "type_name (TimeoutException ReadTimeout m) = ''ReadTimeout''"
| "type_name (TimeoutException WriteTimeout m) = ''WriteTimeout''"
| "type_name (TimeoutException PoolTimeout m) = ''PoolTimeout''"
| "type_name (HTTPStatusError m r) = ''HTTPStatusError''"
| "type_name (OtherException name m) = name"

fun exc_str :: "py_exception \<Rightarrow> string" where
  "exc_str (TimeoutException p m) = m"
| "exc_str (HTTPStatusError m r) = m"
| "exc_str (OtherException name m) = m"

text \<open>
  Modelled from the spec: \<^verbatim>\<open>Response.raise_for_status\<close> belongs to \<^verbatim>\<open>httpx\<close>; by
  section 4.1 a status outside 200..299 is an HTTP status failure, raised as an
  \<^verbatim>\<open>HTTPStatusError\<close> that holds the response.
\<close>

definition raise_for_status :: "response \<Rightarrow> py_exception + response" where
  "raise_for_status r =
     (if 200 \<le> status_code r \<and> status_code r \<le> 299 then Inr r
      else Inl (HTTPStatusError (status_error_message r) r))"

record httpx_timeout =
  connect_timeout :: real
  read_timeout :: real
  write_timeout :: real
  pool_timeout :: real

text \<open>The arguments of one \<^verbatim>\<open>client.post(url, json=..., headers=..., timeout=...)\<close>.\<close>

record request =
  url :: string
  json_data :: jvalue
  headers :: "(string \<times> string) list"
  timeout :: httpx_timeout

text \<open>
  The client answers a request by raising or by returning a response. The state that
  the gateway and the tools pass along is the list of the requests that went out, and
  \<^verbatim>\<open>await client.post(...)\<close> is the one operation that touches it: the request goes
  out, and the client answers it.
\<close>

type_synonym client = "request \<Rightarrow> py_exception + response"

definition post ::
  "client \<Rightarrow> request \<Rightarrow> request list \<Rightarrow> (py_exception + response) \<times> request list"
where
  "post client req sent = (client req, sent @ [req])"

text \<open>
  \<^verbatim>\<open>json.dumps\<close> descends one level of Python calls for every level of nesting, and
  raises \<^verbatim>\<open>RecursionError\<close> where the recursion limit of the interpreter ends the
  descent. What the interpreter contributes is \<open>room\<close>, the number of levels below the
  first that the limit leaves to the encoder, and the text of the error. A scalar and a
  list or dict of scalars are written whatever the room. Under Python's default limit
  of 1000 calls the room is below 1000.
\<close>

record interpreter =
  room :: nat
  recursion_message :: string

definition dumps :: "interpreter \<Rightarrow> nat option \<Rightarrow> jvalue \<Rightarrow> py_exception + string" where
  "dumps py indent obj =
     (if depth obj \<le> Suc (room py) then Inr (iterencode indent 0 obj)
      else Inl (OtherException ''RecursionError'' (recursion_message py)))"

section \<open>The gateway: \<^verbatim>\<open>_api_post\<close>\<close>

definition API_BASE :: string where
  "API_BASE = ''http://103.42.50.33:8000''"

text \<open>
  The call that \<^verbatim>\<open>_api_post\<close> makes: the URL is the base followed by the endpoint,
  the body is \<^verbatim>\<open>data\<close>, and the \<^verbatim>\<open>httpx.Timeout\<close> gives each phase 600 seconds.
\<close>

definition api_request :: "string \<Rightarrow> jvalue \<Rightarrow> request" where
  "api_request endpoint data =
     \<lparr>url = API_BASE @ endpoint,
      json_data = data,
      headers = [(''Content-Type'', ''application/json'')],
      timeout = \<lparr>connect_timeout = 600, read_timeout = 600,
                 write_timeout = 600, pool_timeout = 600\<rparr>\<rparr>"

text \<open>
  The body of the \<^verbatim>\<open>try\<close>: \<^verbatim>\<open>await client.post(...)\<close>,
  \<^verbatim>\<open>r.raise_for_status()\<close>, \<^verbatim>\<open>return r.json()\<close>. The first of them that raises
  ends it.
\<close>

definition attempt ::
  "client \<Rightarrow> request \<Rightarrow> request list \<Rightarrow> (py_exception + jvalue) \<times> request list"
where
  "attempt client req sent =
     (case post client req sent of
        (Inl e, sent') \<Rightarrow> (Inl e, sent')
      | (Inr r, sent') \<Rightarrow>
          (case raise_for_status r of
             Inl e \<Rightarrow> (Inl e, sent')
           | Inr r' \<Rightarrow> (json r', sent')))"

text \<open>
  The \<^verbatim>\<open>except\<close> clauses in their order: \<^verbatim>\<open>httpx.TimeoutException\<close>,
  \<^verbatim>\<open>httpx.HTTPStatusError\<close>, \<^verbatim>\<open>Exception\<close>. Every path returns a value.
\<close>

definition api_post ::
  "client \<Rightarrow> string \<Rightarrow> jvalue \<Rightarrow> request list \<Rightarrow> (py_exception + jvalue) \<times> request list"
where
  "api_post client endpoint data sent =
     (case attempt client (api_request endpoint data) sent of
        (outcome, sent') \<Rightarrow>
          (Inr (case outcome of
                  Inr body \<Rightarrow> body
                | Inl (TimeoutException p m) \<Rightarrow>
                    JObj [(''error'', JStr ''Request timed out. The API is taking longer than expected. Please try again.''),
                          (''error_type'', JStr ''timeout''),
                          (''success'', JBool False)]
                | Inl (HTTPStatusError m r) \<Rightarrow>
                    JObj [(''error'', JStr (''API returned error: '' @ str_nat (status_code r))),
                          (''error_details'', JStr (response_text r)),
                          (''success'', JBool False)]
                | Inl (OtherException name m) \<Rightarrow>
                    JObj [(''error'', JStr (''Request failed: '' @ exc_str (OtherException name m))),
                          (''error_type'', JStr (type_name (OtherException name m))),
                          (''success'', JBool False)]),
           sent'))"

section \<open>The tools\<close>

text \<open>
  \<^verbatim>\<open>isinstance(data, dict)\<close>, \<^verbatim>\<open>data.get(key)\<close> and \<^verbatim>\<open>... == False\<close>. In Python the
  integer zero and the float zero (of either sign) equal \<^verbatim>\<open>False\<close>; \<^verbatim>\<open>None\<close>,
  strings, lists and dicts do not.
\<close>

fun isinstance_dict :: "jvalue \<Rightarrow> bool" where
  "isinstance_dict (JObj kvs) = True"
| "isinstance_dict v = False"

fun dict_get :: "jvalue \<Rightarrow> string \<Rightarrow> jvalue option" where
  "dict_get (JObj kvs) key = map_of kvs key"
| "dict_get v key = None"

fun eq_False :: "jvalue option \<Rightarrow> bool" where
  "eq_False (Some (JBool b)) = (\<not> b)"
| "eq_False (Some (JInt i)) = (i = 0)"
| "eq_False (Some (JFloat (Finite repr))) = (repr = ''0.0'' \<or> repr = ''-0.0'')"
| "eq_False v = False"

text \<open>
  The condition of the check that each tool makes on the gateway's result (lines 105,
  142 and 181): \<^verbatim>\<open>isinstance(data, dict) and data.get("success") == False\<close>.
\<close>

definition declares_failure :: "jvalue \<Rightarrow> bool" where
  "declares_failure data = (isinstance_dict data \<and> eq_False (dict_get data ''success''))"

text \<open>
  Each tool has one \<^verbatim>\<open>try\<close> around the awaited gateway call, the check and the
  \<^verbatim>\<open>json.dumps\<close> of either branch; whatever raises in there is answered by the
  \<^verbatim>\<open>except Exception\<close> clause, which serialises the error document without an
  indent. The awaited call is a parameter, so that the clause is a branch of the model
  for every behaviour of the call; the tools themselves pass \<open>api_post client\<close>.
\<close>

type_synonym gateway =
  "string \<Rightarrow> jvalue \<Rightarrow> request list \<Rightarrow> (py_exception + jvalue) \<times> request list"

definition generate_story_via ::
  "interpreter \<Rightarrow> gateway \<Rightarrow> string \<Rightarrow> request list \<Rightarrow> (py_exception + string) \<times> request list"
where
  "generate_story_via py api prompt sent =
     (case api ''/story'' (JObj [(''question'', JStr prompt)]) sent of
        (outcome, sent') \<Rightarrow>
          (case (case outcome of
                   Inl e \<Rightarrow> Inl e
                 | Inr data \<Rightarrow>
                     if declares_failure data
                     then dumps py (Some 2) data
                     else dumps py (Some 2) data) of
             Inr result \<Rightarrow> (Inr result, sent')
           | Inl e \<Rightarrow>
               (dumps py None
                  (JObj [(''error'', JStr (''Unexpected error: '' @ exc_str e)),
                         (''error_type'', JStr (type_name e)),
                         (''success'', JBool False)]),
                sent')))"

definition generate_episodic_beats_from_file_via ::
  "interpreter \<Rightarrow> gateway \<Rightarrow> string \<Rightarrow> request list \<Rightarrow> (py_exception + string) \<times> request list"
where
  "generate_episodic_beats_from_file_via py api file_path sent =
     (case api ''/episodic_beats_from_file'' (JObj [(''file_path'', JStr file_path)]) sent of
        (outcome, sent') \<Rightarrow>
          (case (case outcome of
                   Inl e \<Rightarrow> Inl e
                 | Inr data \<Rightarrow>
                     if declares_failure data
                     then dumps py (Some 2) data
                     else dumps py (Some 2) data) of
             Inr result \<Rightarrow> (Inr result, sent')
           | Inl e \<Rightarrow>
               (dumps py None
                  (JObj [(''error'', JStr (''Unexpected error: '' @ exc_str e)),
                         (''error_type'', JStr (type_name e)),
                         (''success'', JBool False)]),
                sent')))"

definition ask_vector_db_via ::
  "interpreter \<Rightarrow> gateway \<Rightarrow> string \<Rightarrow> request list \<Rightarrow> (py_exception + string) \<times> request list"
where
  "ask_vector_db_via py api prompt sent =
     (case api ''/ask'' (JObj [(''question'', JStr prompt)]) sent of
        (outcome, sent') \<Rightarrow>
          (case (case outcome of
                   Inl e \<Rightarrow> Inl e
                 | Inr data \<Rightarrow>
                     if declares_failure data
                     then dumps py (Some 2) data
                     else dumps py (Some 2) data) of
             Inr result \<Rightarrow> (Inr result, sent')
           | Inl e \<Rightarrow>
               (dumps py None
                  (JObj [(''error'', JStr (''Unexpected error: '' @ exc_str e)),
                         (''error_type'', JStr (type_name e)),
                         (''success'', JBool False)]),
                sent')))"

definition generate_story ::
  "interpreter \<Rightarrow> client \<Rightarrow> string \<Rightarrow> request list \<Rightarrow> (py_exception + string) \<times> request list"
where
  "generate_story py client prompt sent = generate_story_via py (api_post client) prompt sent"

definition generate_episodic_beats_from_file ::
  "interpreter \<Rightarrow> client \<Rightarrow> string \<Rightarrow> request list \<Rightarrow> (py_exception + string) \<times> request list"
where
  "generate_episodic_beats_from_file py client file_path sent =
     generate_episodic_beats_from_file_via py (api_post client) file_path sent"

definition ask_vector_db ::
  "interpreter \<Rightarrow> client \<Rightarrow> string \<Rightarrow> request list \<Rightarrow> (py_exception + string) \<times> request list"
where
  "ask_vector_db py client prompt sent = ask_vector_db_via py (api_post client) prompt sent"

text \<open>
  The host protocol invokes a registered tool by its name, with one string argument.
  The endpoint and the body field of each tool are those of the table in section 4.2
  of the specification; \<open>tool_request\<close> is the request they describe.
\<close>

datatype tool = Generate_story | Generate_episodic_beats_from_file | Ask_vector_db

fun invoke_via ::
  "interpreter \<Rightarrow> tool \<Rightarrow> gateway \<Rightarrow> string \<Rightarrow> request list
   \<Rightarrow> (py_exception + string) \<times> request list"
where
  "invoke_via py Generate_story = generate_story_via py"
| "invoke_via py Generate_episodic_beats_from_file = generate_episodic_beats_from_file_via py"
| "invoke_via py Ask_vector_db = ask_vector_db_via py"

fun invoke ::
  "interpreter \<Rightarrow> tool \<Rightarrow> client \<Rightarrow> string \<Rightarrow> request list
   \<Rightarrow> (py_exception + string) \<times> request list"
where
  "invoke py Generate_story = generate_story py"
| "invoke py Generate_episodic_beats_from_file = generate_episodic_beats_from_file py"
| "invoke py Ask_vector_db = ask_vector_db py"

fun tool_endpoint :: "tool \<Rightarrow> string" where
  "tool_endpoint Generate_story = ''/story''"
| "tool_endpoint Generate_episodic_beats_from_file = ''/episodic_beats_from_file''"
| "tool_endpoint Ask_vector_db = ''/ask''"

fun tool_field :: "tool \<Rightarrow> string" where
  "tool_field Generate_story = ''question''"
| "tool_field Generate_episodic_beats_from_file = ''file_path''"
| "tool_field Ask_vector_db = ''question''"

definition tool_request :: "tool \<Rightarrow> string \<Rightarrow> request" where
  "tool_request t s = api_request (tool_endpoint t) (JObj [(tool_field t, JStr s)])"

text \<open>
  What the caller reads: the JSON value of the returned text, and nothing when the tool
  lets an exception through or the text is not JSON.
\<close>

definition returned_json :: "(py_exception + string) \<times> request list \<Rightarrow> jvalue option" where
  "returned_json res = (case fst res of Inl e \<Rightarrow> None | Inr txt \<Rightarrow> loads txt)"

text \<open>
  The tools with the check of the upstream-declared \<^verbatim>\<open>success\<close> flag taken out: the
  gateway's result goes straight to \<^verbatim>\<open>json.dumps\<close>.
\<close>

definition generate_story_unchecked ::
  "interpreter \<Rightarrow> gateway \<Rightarrow> string \<Rightarrow> request list \<Rightarrow> (py_exception + string) \<times> request list"
where
  "generate_story_unchecked py api prompt sent =
     (case api ''/story'' (JObj [(''question'', JStr prompt)]) sent of
        (outcome, sent') \<Rightarrow>
          (case (case outcome of
                   Inl e \<Rightarrow> Inl e
                 | Inr data \<Rightarrow> dumps py (Some 2) data) of
             Inr result \<Rightarrow> (Inr result, sent')
           | Inl e \<Rightarrow>
               (dumps py None
                  (JObj [(''error'', JStr (''Unexpected error: '' @ exc_str e)),
                         (''error_type'', JStr (type_name e)),
                         (''success'', JBool False)]),
                sent')))"

definition generate_episodic_beats_from_file_unchecked ::
  "interpreter \<Rightarrow> gateway \<Rightarrow> string \<Rightarrow> request list \<Rightarrow> (py_exception + string) \<times> request list"
where
  "generate_episodic_beats_from_file_unchecked py api file_path sent =
     (case api ''/episodic_beats_from_file'' (JObj [(''file_path'', JStr file_path)]) sent of
        (outcome, sent') \<Rightarrow>
          (case (case outcome of
                   Inl e \<Rightarrow> Inl e
                 | Inr data \<Rightarrow> dumps py (Some 2) data) of
             Inr result \<Rightarrow> (Inr result, sent')
           | Inl e \<Rightarrow>
               (dumps py None
                  (JObj [(''error'', JStr (''Unexpected error: '' @ exc_str e)),
                         (''error_type'', JStr (type_name e)),
                         (''success'', JBool False)]),
                sent')))"

definition ask_vector_db_unchecked ::
  "interpreter \<Rightarrow> gateway \<Rightarrow> string \<Rightarrow> request list \<Rightarrow> (py_exception + string) \<times> request list"
where
  "ask_vector_db_unchecked py api prompt sent =
     (case api ''/ask'' (JObj [(''question'', JStr prompt)]) sent of
        (outcome, sent') \<Rightarrow>
          (case (case outcome of
                   Inl e \<Rightarrow> Inl e
                 | Inr data \<Rightarrow> dumps py (Some 2) data) of
             Inr result \<Rightarrow> (Inr result, sent')
           | Inl e \<Rightarrow>
               (dumps py None
                  (JObj [(''error'', JStr (''Unexpected error: '' @ exc_str e)),
                         (''error_type'', JStr (type_name e)),
                         (''success'', JBool False)]),
                sent')))"

section \<open>Well-formed payloads\<close>

text \<open>
  The text of a finite float, as \<^verbatim>\<open>float.__repr__\<close> writes it, is a JSON number with
  a fraction or an exponent: the number reader reads all of it, as a float. A value is
  \<open>json_compliant\<close> (the word of \<^verbatim>\<open>json.dumps\<close> for it) when each float in it is
  finite, with such a text.
\<close>

definition float_literal :: "string \<Rightarrow> bool" where
  "float_literal s = (parse_number s = Some (JFloat (Finite s), []))"

fun json_compliant :: "jvalue \<Rightarrow> bool"
and json_compliant_list :: "jvalue list \<Rightarrow> bool"
and json_compliant_dict :: "(string \<times> jvalue) list \<Rightarrow> bool"
where
  "json_compliant (JFloat (Finite repr)) = float_literal repr"
| "json_compliant (JFloat x) = False"
| "json_compliant (JArr xs) = json_compliant_list xs"
| "json_compliant (JObj kvs) = json_compliant_dict kvs"
| "json_compliant v = True"
| "json_compliant_list [] = True"
| "json_compliant_list (x # xs) = (json_compliant x \<and> json_compliant_list xs)"
| "json_compliant_dict [] = True"
| "json_compliant_dict ((k, v) # kvs) = (json_compliant v \<and> json_compliant_dict kvs)"


text \<open>
  Side conditions of the lemmas about the reader: the character that follows a value
  in a text that \<^verbatim>\<open>json.dumps\<close> writes, and the first character of a value.
\<close>

definition value_end :: "char \<Rightarrow> bool" where
  "value_end c = (c = CHR '','' \<or> c = CHR '']'' \<or> c = CHR ''}'' \<or> is_ws c)"

definition tail_ok :: "string \<Rightarrow> bool" where
  "tail_ok rest = (case rest of [] \<Rightarrow> True | c # cs \<Rightarrow> value_end c)"

definition token_start :: "char \<Rightarrow> bool" where
  "token_start c = (\<not> is_ws c \<and> c \<noteq> CHR '']'' \<and> c \<noteq> CHR ''}'')"

section \<open>Reading back what \<^verbatim>\<open>json.dumps\<close> writes\<close>

subsection \<open>Numbers\<close>

declare str_nat.simps [simp del]

lemma is_digit_char_of: "(d::nat) < 10 \<Longrightarrow> is_digit (char_of (48 + d))"
  by (simp add: is_digit_def)

lemma str_nat_not_Nil: "str_nat n \<noteq> []"
  by (subst str_nat.simps) simp

lemma str_nat_digits: "c \<in> set (str_nat n) \<Longrightarrow> is_digit c"
proof (induction n arbitrary: c rule: str_nat.induct)
  case (1 n)
  show ?case
  proof (cases "n < 10")
    case True
    with "1.prems" show ?thesis
      by (subst (asm) str_nat.simps) (simp add: is_digit_char_of)
  next
    case False
    with "1.prems" have "c \<in> set (str_nat (n div 10)) \<or> c = char_of (48 + n mod 10)"
      by (subst (asm) str_nat.simps) auto
    then show ?thesis
      using "1.IH" [OF False] by (auto simp: is_digit_char_of)
  qed
qed

lemma nat_of_digits_snoc:
  "nat_of_digits (ds @ [c]) = 10 * nat_of_digits ds + (of_char c - 48)"
  by (simp add: nat_of_digits_def)

lemma nat_of_digits_str_nat: "nat_of_digits (str_nat n) = n"
proof (induction n rule: str_nat.induct)
  case (1 n)
  show ?case
  proof (cases "n < 10")
    case True
    then show ?thesis
      by (subst str_nat.simps) (simp add: nat_of_digits_def)
  next
    case False
    have "n mod 10 < 10" by simp
    then have "(48 + n mod 10) mod 256 = 48 + n mod 10" by simp
    with False "1.IH" show ?thesis
      by (subst str_nat.simps) (simp add: nat_of_digits_snoc)
  qed
qed

lemma str_nat_hd_zero: "hd (str_nat n) = CHR ''0'' \<Longrightarrow> n = 0"
proof (induction n rule: str_nat.induct)
  case (1 n)
  show ?case
  proof (cases "n < 10")
    case True
    with "1.prems" have "char_of (48 + n) = CHR ''0''"
      by (subst (asm) str_nat.simps) simp
    then have "of_char (char_of (48 + n) :: char) = (of_char (CHR ''0'') :: nat)" by simp
    with True show ?thesis by simp
  next
    case False
    with "1.prems" have "hd (str_nat (n div 10)) = CHR ''0''"
      by (subst (asm) str_nat.simps) (simp add: str_nat_not_Nil)
    with "1.IH" [OF False] have "n div 10 = 0" by simp
    with False show ?thesis by simp
  qed
qed

lemma char_of_48: "char_of (48::nat) = CHR ''0''"
  by code_simp

lemma str_nat_zero: "str_nat 0 = ''0''"
  by (subst str_nat.simps) (simp add: char_of_48)

lemma str_nat_500: "str_nat 500 = ''500''"
  by code_simp

lemma value_end_not_number:
  assumes "value_end c"
  shows "\<not> is_digit c" "c \<noteq> CHR ''.''" "c \<noteq> CHR ''e''" "c \<noteq> CHR ''E''"
    "c \<noteq> CHR ''+''" "c \<noteq> CHR ''-''" "c \<noteq> CHR ''0''"
  using assms by (auto simp: value_end_def is_digit_def is_ws_def)

lemma takeWhile_digit_tail:
  "tail_ok rest \<Longrightarrow> takeWhile is_digit (s @ rest) = takeWhile is_digit s"
proof (induction s)
  case Nil
  then show ?case
    by (cases rest) (simp_all add: tail_ok_def value_end_not_number)
qed simp

lemma dropWhile_digit_tail:
  "tail_ok rest \<Longrightarrow> dropWhile is_digit (s @ rest) = dropWhile is_digit s @ rest"
proof (induction s)
  case Nil
  then show ?case
    by (cases rest) (simp_all add: tail_ok_def value_end_not_number)
qed simp

lemma scan_sign_tail:
  assumes "tail_ok rest"
  shows "scan_sign (s @ rest) = (fst (scan_sign s), snd (scan_sign s) @ rest)"
proof (cases s)
  case Nil
  with assms show ?thesis
    by (cases rest) (simp_all add: scan_sign_def tail_ok_def value_end_not_number)
next
  case (Cons c cs)
  then show ?thesis by (simp add: scan_sign_def)
qed

lemma scan_exp_sign_tail:
  assumes "tail_ok rest"
  shows "scan_exp_sign (s @ rest) = (fst (scan_exp_sign s), snd (scan_exp_sign s) @ rest)"
proof (cases s)
  case Nil
  with assms show ?thesis
    by (cases rest) (simp_all add: scan_exp_sign_def tail_ok_def value_end_not_number)
next
  case (Cons c cs)
  then show ?thesis by (simp add: scan_exp_sign_def)
qed

lemma scan_int_tail:
  assumes "tail_ok rest"
  shows "scan_int (s @ rest) = map_option (\<lambda>(ip, r). (ip, r @ rest)) (scan_int s)"
proof (cases s)
  case Nil
  with assms show ?thesis
    by (cases rest) (simp_all add: scan_int_def tail_ok_def value_end_not_number)
next
  case (Cons c cs)
  then show ?thesis
    using takeWhile_digit_tail [OF assms, of cs] dropWhile_digit_tail [OF assms, of cs]
    by (simp add: scan_int_def)
qed

lemma scan_frac_tail:
  assumes "tail_ok rest"
  shows "scan_frac (s @ rest) = (fst (scan_frac s), snd (scan_frac s) @ rest)"
proof (cases s)
  case Nil
  with assms show ?thesis
    by (cases rest) (simp_all add: scan_frac_def tail_ok_def value_end_not_number)
next
  case (Cons c cs)
  then show ?thesis
    using takeWhile_digit_tail [OF assms, of cs] dropWhile_digit_tail [OF assms, of cs]
    by (simp add: scan_frac_def)
qed

lemma scan_exp_tail:
  assumes "tail_ok rest"
  shows "scan_exp (s @ rest) = (fst (scan_exp s), snd (scan_exp s) @ rest)"
proof (cases s)
  case Nil
  with assms show ?thesis
    by (cases rest) (simp_all add: scan_exp_def tail_ok_def value_end_not_number)
next
  case (Cons c cs)
  obtain sg ds where sd: "scan_exp_sign cs = (sg, ds)" by (cases "scan_exp_sign cs") auto
  then have "scan_exp_sign (cs @ rest) = (sg, ds @ rest)"
    using scan_exp_sign_tail [OF assms, of cs] by simp
  with Cons sd show ?thesis
    using takeWhile_digit_tail [OF assms, of ds] dropWhile_digit_tail [OF assms, of ds]
    by (simp add: scan_exp_def)
qed

lemma parse_number_tail:
  assumes "tail_ok rest"
  shows "parse_number (s @ rest) = map_option (\<lambda>(v, r). (v, r @ rest)) (parse_number s)"
proof -
  obtain sg s1 where a: "scan_sign s = (sg, s1)" by (cases "scan_sign s") auto
  then have a': "scan_sign (s @ rest) = (sg, s1 @ rest)"
    using scan_sign_tail [OF assms, of s] by simp
  show ?thesis
  proof (cases "scan_int s1")
    case None
    then have "scan_int (s1 @ rest) = None"
      using scan_int_tail [OF assms, of s1] by simp
    with None a a' show ?thesis by (simp add: parse_number_def)
  next
    case (Some p)
    obtain ip s2 where p: "p = (ip, s2)" by (cases p) auto
    obtain fr s3 where b: "scan_frac s2 = (fr, s3)" by (cases "scan_frac s2") auto
    obtain ex s4 where c: "scan_exp s3 = (ex, s4)" by (cases "scan_exp s3") auto
    have "scan_int (s1 @ rest) = Some (ip, s2 @ rest)"
      using scan_int_tail [OF assms, of s1] Some p by simp
    moreover have "scan_frac (s2 @ rest) = (fr, s3 @ rest)"
      using scan_frac_tail [OF assms, of s2] b by simp
    moreover have "scan_exp (s3 @ rest) = (ex, s4 @ rest)"
      using scan_exp_tail [OF assms, of s3] c by simp
    ultimately show ?thesis
      using a a' Some p b c by (simp add: parse_number_def)
  qed
qed

lemma scan_int_str_nat: "scan_int (str_nat n) = Some (str_nat n, [])"
proof (cases "n = 0")
  case True
  then show ?thesis by (simp add: str_nat_zero scan_int_def)
next
  case False
  obtain c cs where cs: "str_nat n = c # cs"
    using str_nat_not_Nil [of n] by (cases "str_nat n") auto
  have "c \<noteq> CHR ''0''"
    using str_nat_hd_zero [of n] False cs by auto
  moreover have "is_digit c"
    using str_nat_digits [of c n] cs by simp
  moreover have "takeWhile is_digit (str_nat n) = str_nat n"
    "dropWhile is_digit (str_nat n) = []"
    using str_nat_digits [of _ n] by (simp_all add: takeWhile_eq_all_conv dropWhile_eq_Nil_conv)
  ultimately show ?thesis
    using cs by (simp add: scan_int_def)
qed

lemma str_nat_hd_not_minus: "hd (str_nat n) \<noteq> CHR ''-''"
proof -
  obtain c cs where cs: "str_nat n = c # cs"
    using str_nat_not_Nil [of n] by (cases "str_nat n") auto
  then have "is_digit c" using str_nat_digits [of c n] by simp
  then have "c \<noteq> CHR ''-''" by (auto simp: is_digit_def)
  with cs show ?thesis by simp
qed

lemma scan_sign_str_nat: "scan_sign (str_nat n) = ([], str_nat n)"
  using str_nat_hd_not_minus [of n] str_nat_not_Nil [of n]
  by (cases "str_nat n") (simp_all add: scan_sign_def)

lemma parse_number_str_int_whole: "parse_number (str_int i) = Some (JInt i, [])"
proof (cases "i < 0")
  case True
  then show ?thesis
    by (simp add: str_int_def parse_number_def scan_sign_def scan_int_str_nat
        scan_frac_def scan_exp_def nat_of_digits_str_nat)
next
  case False
  then show ?thesis
    by (simp add: str_int_def parse_number_def scan_sign_str_nat scan_int_str_nat
        scan_frac_def scan_exp_def nat_of_digits_str_nat)
qed

lemma parse_number_str_int:
  "tail_ok rest \<Longrightarrow> parse_number (str_int i @ rest) = Some (JInt i, rest)"
  by (simp add: parse_number_tail parse_number_str_int_whole)

lemma parse_number_float_literal:
  "float_literal s \<Longrightarrow> tail_ok rest
   \<Longrightarrow> parse_number (s @ rest) = Some (JFloat (Finite s), rest)"
  by (simp add: parse_number_tail float_literal_def)

lemma parse_number_start:
  assumes "parse_number s = Some (v, r)"
  shows "\<exists>c cs. s = c # cs \<and> (c = CHR ''-'' \<or> is_digit c)"
proof (cases s)
  case Nil
  with assms show ?thesis
    by (simp add: parse_number_def scan_sign_def scan_int_def)
next
  case (Cons c cs)
  show ?thesis
  proof (cases "c = CHR ''-''")
    case True
    with Cons show ?thesis by simp
  next
    case False
    with assms Cons have "scan_int (c # cs) \<noteq> None"
      by (auto simp: parse_number_def scan_sign_def split: option.splits)
    then have "is_digit c"
      by (auto simp: scan_int_def is_digit_def split: if_splits)
    with Cons show ?thesis by simp
  qed
qed

lemma float_literal_start:
  "float_literal s \<Longrightarrow> \<exists>c cs. s = c # cs \<and> (c = CHR ''-'' \<or> is_digit c)"
  unfolding float_literal_def by (rule parse_number_start)


subsection \<open>Strings\<close>

lemma hex_val_hex_char: "d < 16 \<Longrightarrow> hex_val (hex_char d) = Some d"
  by (auto simp: hex_val_def hex_char_def Let_def)

lemma hex_val_zero: "hex_val (CHR ''0'') = Some 0"
  by (simp add: hex_val_def)

lemma hex4_control:
  assumes "(of_char c :: nat) < 0x20"
  shows "hex4 (CHR ''0'') (CHR ''0'') (hex_char (of_char c div 16)) (hex_char (of_char c mod 16))
           = Some (of_char c)"
proof -
  have "(of_char c :: nat) div 16 < 16" using assms by simp
  then show ?thesis
    by (simp add: hex4_def hex_val_zero hex_val_hex_char)
qed

lemma scanstring_escape_char:
  assumes "scanstring t = Some (s, r)"
  shows "scanstring (escape_char c @ t) = Some (c # s, r)"
proof (cases "(of_char c :: nat) < 0x20")
  case True
  then show ?thesis
    using assms hex4_control [OF True]
    by (simp add: escape_char_def unescape_def)
next
  case False
  then show ?thesis
    using assms by (auto simp: escape_char_def unescape_def)
qed

lemma scanstring_encoded:
  "scanstring (concat (map escape_char s) @ CHR 0x22 # rest) = Some (s, rest)"
  by (induction s) (simp_all add: scanstring_escape_char)

subsection \<open>Whitespace\<close>

lemma skip_ws_ws: "list_all is_ws w \<Longrightarrow> skip_ws (w @ s) = skip_ws s"
  by (induction w) (simp_all add: skip_ws_def)

lemma skip_ws_token: "\<not> is_ws c \<Longrightarrow> skip_ws (c # cs) = c # cs"
  by (simp add: skip_ws_def)

lemma newline_indent_ws: "list_all is_ws (newline_indent indent level)"
  by (auto simp: newline_indent_def is_ws_def list_all_iff split: option.splits)

lemma item_separator_shape:
  "\<exists>w. item_separator indent level = CHR '','' # w \<and> list_all is_ws w"
  by (cases indent) (auto simp: item_separator_def newline_indent_def is_ws_def list_all_iff)

lemma tail_ok_ws_then: "list_all is_ws w \<Longrightarrow> value_end c \<Longrightarrow> tail_ok (w @ c # cs)"
  by (cases w) (simp_all add: tail_ok_def value_end_def)

lemma skip_ws_ws_token:
  "list_all is_ws w \<Longrightarrow> \<not> is_ws c \<Longrightarrow> skip_ws (w @ c # cs) = c # cs"
  by (simp add: skip_ws_ws skip_ws_token)

subsection \<open>First characters\<close>

lemma str_int_start: "\<exists>c cs. str_int i = c # cs \<and> (c = CHR ''-'' \<or> is_digit c)"
proof (cases "i < 0")
  case True
  then show ?thesis by (simp add: str_int_def)
next
  case False
  obtain c cs where cs: "str_nat (nat i) = c # cs"
    using str_nat_not_Nil [of "nat i"] by (cases "str_nat (nat i)") auto
  then have "is_digit c" using str_nat_digits [of c "nat i"] by simp
  with cs False show ?thesis by (simp add: str_int_def)
qed

lemma number_start_token: "c = CHR ''-'' \<or> is_digit c \<Longrightarrow> token_start c"
  by (auto simp: token_start_def is_digit_def is_ws_def)

lemma iterencode_start:
  "json_compliant v \<Longrightarrow> \<exists>c cs. iterencode indent level v = c # cs \<and> token_start c"
proof (cases v)
  case (JInt i)
  then show ?thesis using str_int_start [of i] number_start_token by auto
next
  case (JFloat x)
  assume "json_compliant v"
  with JFloat obtain s where "x = Finite s" "float_literal s"
    by (cases x) simp_all
  with JFloat show ?thesis
    using float_literal_start [of s] number_start_token by auto
qed (auto simp: token_start_def is_ws_def encode_basestring_def)

lemma iterencode_list_start:
  "xs \<noteq> [] \<Longrightarrow> json_compliant_list xs
   \<Longrightarrow> \<exists>c cs. iterencode_list indent level xs = c # cs \<and> token_start c"
proof (cases xs)
  case (Cons x ys)
  assume "json_compliant_list xs"
  with Cons have "json_compliant x" by simp
  with Cons show ?thesis
    using iterencode_start [of x indent level] by (cases ys) auto
qed simp

lemma iterencode_dict_start:
  "kvs \<noteq> [] \<Longrightarrow> \<exists>cs. iterencode_dict indent level kvs = CHR 0x22 # cs"
proof (cases kvs)
  case (Cons kv rest)
  then show ?thesis
    by (cases kv; cases rest) (auto simp: encode_basestring_def)
qed simp

subsection \<open>Steps of the reader\<close>

lemma number_start_other:
  assumes "c = CHR ''-'' \<or> is_digit c"
  shows "c \<noteq> CHR 0x22" "c \<noteq> CHR ''{''" "c \<noteq> CHR ''[''"
    "c \<noteq> CHR ''n''" "c \<noteq> CHR ''t''" "c \<noteq> CHR ''f''"
  using assms by (auto simp: is_digit_def)

lemma parse_value_number:
  "c = CHR ''-'' \<or> is_digit c \<Longrightarrow> parse_value (Suc n) (c # cs) = parse_number (c # cs)"
  using number_start_other [of c] by simp

lemma parse_value_string:
  "scanstring cs = Some (x, r) \<Longrightarrow> parse_value (Suc n) (CHR 0x22 # cs) = Some (JStr x, r)"
  by simp

lemma parse_value_array:
  "skip_ws cs = d # ds \<Longrightarrow> d \<noteq> CHR '']'' \<Longrightarrow> parse_array n (d # ds) = Some (xs, r)
   \<Longrightarrow> parse_value (Suc n) (CHR ''['' # cs) = Some (JArr xs, r)"
  by simp

lemma parse_value_object:
  "skip_ws cs = d # ds \<Longrightarrow> d \<noteq> CHR ''}'' \<Longrightarrow> parse_object n (d # ds) = Some (kvs, r)
   \<Longrightarrow> parse_value (Suc n) (CHR ''{'' # cs) = Some (JObj kvs, r)"
  by simp

lemma parse_array_last:
  "parse_value n s = Some (x, r) \<Longrightarrow> skip_ws r = CHR '']'' # rest
   \<Longrightarrow> parse_array (Suc n) s = Some ([x], rest)"
  by simp

lemma parse_array_more:
  "parse_value n s = Some (x, r) \<Longrightarrow> skip_ws r = CHR '','' # ds
   \<Longrightarrow> parse_array n (skip_ws ds) = Some (xs, rest)
   \<Longrightarrow> parse_array (Suc n) s = Some (x # xs, rest)"
  by simp

lemma parse_object_last:
  "scanstring cs = Some (k, r) \<Longrightarrow> skip_ws r = CHR '':'' # ds
   \<Longrightarrow> parse_value n (skip_ws ds) = Some (v, r') \<Longrightarrow> skip_ws r' = CHR ''}'' # rest
   \<Longrightarrow> parse_object (Suc n) (CHR 0x22 # cs) = Some ([(k, v)], rest)"
  by simp

lemma parse_object_more:
  "scanstring cs = Some (k, r) \<Longrightarrow> skip_ws r = CHR '':'' # ds
   \<Longrightarrow> parse_value n (skip_ws ds) = Some (v, r') \<Longrightarrow> skip_ws r' = CHR '','' # es
   \<Longrightarrow> parse_object n (skip_ws es) = Some (kvs, rest)
   \<Longrightarrow> parse_object (Suc n) (CHR 0x22 # cs) = Some ((k, v) # kvs, rest)"
  by simp

lemma parse_literals:
  "parse_value (Suc n) (''null'' @ rest) = Some (JNull, rest)"
  "parse_value (Suc n) (''true'' @ rest) = Some (JBool True, rest)"
  "parse_value (Suc n) (''false'' @ rest) = Some (JBool False, rest)"
  by (simp_all add: strip_prefix_def)

lemma parse_empty:
  "parse_value (Suc n) (''[]'' @ rest) = Some (JArr [], rest)"
  "parse_value (Suc n) (''{}'' @ rest) = Some (JObj [], rest)"
  by (simp_all add: skip_ws_def is_ws_def)

declare parse_value.simps [simp del] parse_array.simps [simp del] parse_object.simps [simp del]

subsection \<open>Values\<close>

lemma parse_iterencode:
  "json_compliant v \<longrightarrow> (\<forall>n rest. length (iterencode indent level v) \<le> n \<longrightarrow> tail_ok rest \<longrightarrow>
     parse_value n (iterencode indent level v @ rest) = Some (v, rest))"
  "xs \<noteq> [] \<longrightarrow> json_compliant_list xs \<longrightarrow>
     (\<forall>n w rest. length (iterencode_list indent level xs) < n \<longrightarrow> list_all is_ws w \<longrightarrow>
       parse_array n (iterencode_list indent level xs @ w @ CHR '']'' # rest) = Some (xs, rest))"
  "kvs \<noteq> [] \<longrightarrow> json_compliant_dict kvs \<longrightarrow>
     (\<forall>n w rest. length (iterencode_dict indent level kvs) < n \<longrightarrow> list_all is_ws w \<longrightarrow>
       parse_object n (iterencode_dict indent level kvs @ w @ CHR ''}'' # rest) = Some (kvs, rest))"
proof (induction indent level v and indent level xs and indent level kvs
    rule: iterencode_iterencode_list_iterencode_dict.induct)
  case (1 indent level)
  show ?case
  proof (intro allI impI)
    fix n rest assume "length (iterencode indent level JNull) \<le> n"
    then obtain m where "n = Suc m" by (cases n) auto
    then show "parse_value n (iterencode indent level JNull @ rest) = Some (JNull, rest)"
      using parse_literals(1) [of m rest] by simp
  qed
next
  case (2 indent level b)
  show ?case
  proof (intro allI impI)
    fix n rest assume "length (iterencode indent level (JBool b)) \<le> n"
    then obtain m where "n = Suc m" by (cases n) (auto split: if_splits)
    then show "parse_value n (iterencode indent level (JBool b) @ rest) = Some (JBool b, rest)"
      using parse_literals(2,3) [of m rest] by simp
  qed
next
  case (3 indent level i)
  show ?case
  proof (intro allI impI)
    fix n rest assume len: "length (iterencode indent level (JInt i)) \<le> n" and t: "tail_ok rest"
    obtain c cs where cs: "str_int i = c # cs" and c: "c = CHR ''-'' \<or> is_digit c"
      using str_int_start [of i] by blast
    from len cs obtain m where "n = Suc m" by (cases n) auto
    then show "parse_value n (iterencode indent level (JInt i) @ rest) = Some (JInt i, rest)"
      using parse_value_number [OF c, of m "cs @ rest"] parse_number_str_int [OF t, of i] cs
      by simp
  qed
next
  case (4 indent level x)
  show ?case
  proof (intro allI impI)
    fix n rest
    assume jc: "json_compliant (JFloat x)"
      and len: "length (iterencode indent level (JFloat x)) \<le> n" and t: "tail_ok rest"
    from jc obtain s where x: "x = Finite s" and s: "float_literal s"
      by (cases x) simp_all
    obtain c cs where cs: "s = c # cs" and c: "c = CHR ''-'' \<or> is_digit c"
      using float_literal_start [OF s] by blast
    from len x cs obtain m where "n = Suc m" by (cases n) auto
    then show "parse_value n (iterencode indent level (JFloat x) @ rest) = Some (JFloat x, rest)"
      using parse_value_number [OF c, of m "cs @ rest"] parse_number_float_literal [OF s t] cs x
      by simp
  qed
next
  case (5 indent level s)
  show ?case
  proof (intro allI impI)
    fix n rest assume "length (iterencode indent level (JStr s)) \<le> n"
    then obtain m where "n = Suc m" by (cases n) (auto simp: encode_basestring_def)
    then show "parse_value n (iterencode indent level (JStr s) @ rest) = Some (JStr s, rest)"
      using parse_value_string [OF scanstring_encoded, of m s rest]
      by (simp add: encode_basestring_def)
  qed
next
  case (6 indent level xs)
  show ?case
  proof (intro allI impI)
    fix n rest
    assume jc: "json_compliant (JArr xs)"
      and len: "length (iterencode indent level (JArr xs)) \<le> n"
    show "parse_value n (iterencode indent level (JArr xs) @ rest) = Some (JArr xs, rest)"
    proof (cases "xs = []")
      case True
      with len obtain m where "n = Suc m" by (cases n) auto
      with True show ?thesis using parse_empty(1) [of m rest] by simp
    next
      case False
      let ?body = "iterencode_list indent (Suc level) xs"
      let ?w1 = "newline_indent indent (Suc level)"
      let ?w2 = "newline_indent indent level"
      from jc have jl: "json_compliant_list xs" by simp
      from len False obtain m where m: "n = Suc m" and bl: "length ?body < m"
        by (cases n) auto
      obtain c cs where cs: "?body = c # cs" and c: "token_start c"
        using iterencode_list_start [OF False jl] by blast
      have "skip_ws (?w1 @ ?body @ ?w2 @ CHR '']'' # rest) = c # (cs @ ?w2 @ CHR '']'' # rest)"
        using skip_ws_ws_token [OF newline_indent_ws, of c indent "Suc level"] c cs
        by (simp add: token_start_def)
      moreover have "c \<noteq> CHR '']''" using c by (simp add: token_start_def)
      moreover have "parse_array m (c # (cs @ ?w2 @ CHR '']'' # rest)) = Some (xs, rest)"
      proof -
        have "parse_array m (?body @ ?w2 @ CHR '']'' # rest) = Some (xs, rest)"
          using "6.IH" [OF False] False jl bl newline_indent_ws [of indent level] by simp
        then show ?thesis by (simp add: cs)
      qed
      ultimately have "parse_value (Suc m) (CHR ''['' # ?w1 @ ?body @ ?w2 @ CHR '']'' # rest)
          = Some (JArr xs, rest)"
        by (rule parse_value_array)
      with m False show ?thesis by simp
    qed
  qed
next
  case (7 indent level kvs)
  show ?case
  proof (intro allI impI)
    fix n rest
    assume jc: "json_compliant (JObj kvs)"
      and len: "length (iterencode indent level (JObj kvs)) \<le> n"
    show "parse_value n (iterencode indent level (JObj kvs) @ rest) = Some (JObj kvs, rest)"
    proof (cases "kvs = []")
      case True
      with len obtain m where "n = Suc m" by (cases n) auto
      with True show ?thesis using parse_empty(2) [of m rest] by simp
    next
      case False
      let ?body = "iterencode_dict indent (Suc level) kvs"
      let ?w1 = "newline_indent indent (Suc level)"
      let ?w2 = "newline_indent indent level"
      from jc have jl: "json_compliant_dict kvs" by simp
      from len False obtain m where m: "n = Suc m" and bl: "length ?body < m"
        by (cases n) auto
      obtain cs where cs: "?body = CHR 0x22 # cs"
        using iterencode_dict_start [OF False] by blast
      have "skip_ws (?w1 @ ?body @ ?w2 @ CHR ''}'' # rest)
              = CHR 0x22 # (cs @ ?w2 @ CHR ''}'' # rest)"
        using skip_ws_ws_token [OF newline_indent_ws, of "CHR 0x22" indent "Suc level"] cs
        by (simp add: is_ws_def)
      moreover have "CHR 0x22 \<noteq> CHR ''}''" by simp
      moreover have "parse_object m (CHR 0x22 # (cs @ ?w2 @ CHR ''}'' # rest)) = Some (kvs, rest)"
      proof -
        have "parse_object m (?body @ ?w2 @ CHR ''}'' # rest) = Some (kvs, rest)"
          using "7.IH" [OF False] False jl bl newline_indent_ws [of indent level] by simp
        then show ?thesis by (simp add: cs)
      qed
      ultimately have "parse_value (Suc m) (CHR ''{'' # ?w1 @ ?body @ ?w2 @ CHR ''}'' # rest)
          = Some (JObj kvs, rest)"
        by (rule parse_value_object)
      with m False show ?thesis by simp
    qed
  qed
next
  case (8 indent level)
  show ?case by simp
next
  case (9 indent level x)
  show ?case
  proof (intro allI impI)
    fix n w rest
    assume jc: "json_compliant_list [x]"
      and len: "length (iterencode_list indent level [x]) < n" and w: "list_all is_ws w"
    then obtain m where m: "n = Suc m" and xl: "length (iterencode indent level x) \<le> m"
      by (cases n) auto
    from jc have jx: "json_compliant x" by simp
    have "tail_ok (w @ CHR '']'' # rest)"
      using tail_ok_ws_then [OF w] by (simp add: value_end_def)
    with "9.IH" jx xl
    have "parse_value m (iterencode indent level x @ w @ CHR '']'' # rest)
            = Some (x, w @ CHR '']'' # rest)"
      by blast
    moreover have "skip_ws (w @ CHR '']'' # rest) = CHR '']'' # rest"
      using skip_ws_ws_token [OF w] by (simp add: is_ws_def)
    ultimately have "parse_array (Suc m) (iterencode indent level x @ w @ CHR '']'' # rest)
        = Some ([x], rest)"
      by (rule parse_array_last)
    with m show "parse_array n (iterencode_list indent level [x] @ w @ CHR '']'' # rest)
        = Some ([x], rest)"
      by simp
  qed
next
  case (10 indent level x y ys)
  show ?case
  proof (intro allI impI)
    fix n w rest
    let ?more = "iterencode_list indent level (y # ys)"
    assume jc: "json_compliant_list (x # y # ys)"
      and len: "length (iterencode_list indent level (x # y # ys)) < n"
      and w: "list_all is_ws w"
    from jc have jx: "json_compliant x" and jm: "json_compliant_list (y # ys)" by simp_all
    obtain sw where sep: "item_separator indent level = CHR '','' # sw" and sw: "list_all is_ws sw"
      using item_separator_shape by blast
    from len sep obtain m where m: "n = Suc m"
      and xl: "length (iterencode indent level x) \<le> m" and ml: "length ?more < m"
      by (cases n) auto
    let ?tail = "?more @ w @ CHR '']'' # rest"
    have "tail_ok (CHR '','' # sw @ ?tail)"
      by (simp add: tail_ok_def value_end_def)
    with "10.IH"(1) jx xl
    have "parse_value m (iterencode indent level x @ CHR '','' # sw @ ?tail)
            = Some (x, CHR '','' # sw @ ?tail)"
      by blast
    moreover have "skip_ws (CHR '','' # sw @ ?tail) = CHR '','' # sw @ ?tail"
      by (simp add: skip_ws_token is_ws_def)
    moreover have "parse_array m (skip_ws (sw @ ?tail)) = Some (y # ys, rest)"
    proof -
      obtain c cs where cs: "?more = c # cs" and c: "token_start c"
        using iterencode_list_start [of "y # ys" indent level] jm by blast
      then have "skip_ws (sw @ ?tail) = ?tail"
        using skip_ws_ws_token [OF sw, of c] by (simp add: token_start_def)
      then show ?thesis using "10.IH"(2) jm ml w by simp
    qed
    ultimately have "parse_array (Suc m) (iterencode indent level x @ CHR '','' # sw @ ?tail)
        = Some (x # y # ys, rest)"
      by (rule parse_array_more)
    with m sep show "parse_array n (iterencode_list indent level (x # y # ys) @ w @ CHR '']'' # rest)
        = Some (x # y # ys, rest)"
      by simp
  qed
next
  case (11 indent level)
  show ?case by simp
next
  case (12 indent level k v)
  show ?case
  proof (intro allI impI)
    fix n w rest
    assume jc: "json_compliant_dict [(k, v)]"
      and len: "length (iterencode_dict indent level [(k, v)]) < n" and w: "list_all is_ws w"
    then obtain m where m: "n = Suc m" and vl: "length (iterencode indent level v) \<le> m"
      by (cases n) auto
    from jc have jv: "json_compliant v" by simp
    let ?val = "iterencode indent level v"
    let ?after = "w @ CHR ''}'' # rest"
    have key: "scanstring (concat (map escape_char k) @ CHR 0x22 # '': '' @ ?val @ ?after)
            = Some (k, '': '' @ ?val @ ?after)"
      by (rule scanstring_encoded)
    have colon: "skip_ws ('': '' @ ?val @ ?after) = CHR '':'' # ('' '' @ ?val @ ?after)"
      by (simp add: skip_ws_token is_ws_def)
    have "tail_ok ?after"
      using tail_ok_ws_then [OF w] by (simp add: value_end_def)
    with "12.IH" jv vl have "parse_value m (?val @ ?after) = Some (v, ?after)"
      by blast
    moreover obtain c cs where "?val = c # cs" "token_start c"
      using iterencode_start [OF jv] by blast
    then have "skip_ws ('' '' @ ?val @ ?after) = ?val @ ?after"
      by (simp add: skip_ws_def is_ws_def token_start_def)
    ultimately have val: "parse_value m (skip_ws ('' '' @ ?val @ ?after)) = Some (v, ?after)"
      by simp
    have close: "skip_ws ?after = CHR ''}'' # rest"
      using skip_ws_ws_token [OF w] by (simp add: is_ws_def)
    have "parse_object (Suc m)
            (CHR 0x22 # concat (map escape_char k) @ CHR 0x22 # '': '' @ ?val @ ?after)
          = Some ([(k, v)], rest)"
      by (rule parse_object_last [OF key colon val close])
    with m show "parse_object n (iterencode_dict indent level [(k, v)] @ w @ CHR ''}'' # rest)
        = Some ([(k, v)], rest)"
      by (simp add: encode_basestring_def)
  qed
next
  case (13 indent level k v kv kvs)
  show ?case
  proof (intro allI impI)
    fix n w rest
    let ?more = "iterencode_dict indent level (kv # kvs)"
    let ?val = "iterencode indent level v"
    assume jc: "json_compliant_dict ((k, v) # kv # kvs)"
      and len: "length (iterencode_dict indent level ((k, v) # kv # kvs)) < n"
      and w: "list_all is_ws w"
    from jc have jv: "json_compliant v" and jm: "json_compliant_dict (kv # kvs)" by simp_all
    obtain sw where sep: "item_separator indent level = CHR '','' # sw" and sw: "list_all is_ws sw"
      using item_separator_shape by blast
    from len sep obtain m where m: "n = Suc m"
      and vl: "length ?val \<le> m" and ml: "length ?more < m"
      by (cases n) auto
    let ?tail = "?more @ w @ CHR ''}'' # rest"
    let ?after = "CHR '','' # sw @ ?tail"
    have key: "scanstring (concat (map escape_char k) @ CHR 0x22 # '': '' @ ?val @ ?after)
            = Some (k, '': '' @ ?val @ ?after)"
      by (rule scanstring_encoded)
    have colon: "skip_ws ('': '' @ ?val @ ?after) = CHR '':'' # ('' '' @ ?val @ ?after)"
      by (simp add: skip_ws_token is_ws_def)
    have "tail_ok ?after"
      by (simp add: tail_ok_def value_end_def)
    with "13.IH"(1) jv vl have "parse_value m (?val @ ?after) = Some (v, ?after)"
      by blast
    moreover obtain c cs where "?val = c # cs" "token_start c"
      using iterencode_start [OF jv] by blast
    then have "skip_ws ('' '' @ ?val @ ?after) = ?val @ ?after"
      by (simp add: skip_ws_def is_ws_def token_start_def)
    ultimately have val: "parse_value m (skip_ws ('' '' @ ?val @ ?after)) = Some (v, ?after)"
      by simp
    have comma: "skip_ws ?after = CHR '','' # (sw @ ?tail)"
      by (simp add: skip_ws_token is_ws_def)
    have more: "parse_object m (skip_ws (sw @ ?tail)) = Some (kv # kvs, rest)"
    proof -
      obtain cs where cs: "?more = CHR 0x22 # cs"
        using iterencode_dict_start [of "kv # kvs" indent level] by blast
      then have "skip_ws (sw @ ?tail) = ?tail"
        using skip_ws_ws_token [OF sw, of "CHR 0x22"] by (simp add: is_ws_def)
      then show ?thesis using "13.IH"(2) jm ml w by simp
    qed
    have "parse_object (Suc m)
            (CHR 0x22 # concat (map escape_char k) @ CHR 0x22 # '': '' @ ?val @ ?after)
          = Some ((k, v) # kv # kvs, rest)"
      by (rule parse_object_more [OF key colon val comma more])
    with m sep show "parse_object n
          (iterencode_dict indent level ((k, v) # kv # kvs) @ w @ CHR ''}'' # rest)
        = Some ((k, v) # kv # kvs, rest)"
      by (simp add: encode_basestring_def)
  qed
qed

lemma loads_iterencode:
  assumes "json_compliant v"
  shows "loads (iterencode indent 0 v) = Some v"
proof -
  obtain c cs where cs: "iterencode indent 0 v = c # cs" and c: "token_start c"
    using iterencode_start [OF assms] by blast
  then have "skip_ws (iterencode indent 0 v) = iterencode indent 0 v"
    by (simp add: skip_ws_token token_start_def)
  moreover have "parse_value (length (iterencode indent 0 v)) (iterencode indent 0 v @ [])
      = Some (v, [])"
    using parse_iterencode(1) [of v indent 0, rule_format, of "length (iterencode indent 0 v)" "[]"]
      assms
    by (simp add: tail_ok_def)
  ultimately show ?thesis
    by (simp add: loads_def skip_ws_def)
qed

text \<open>
  The three tokens of \<^verbatim>\<open>json.dumps\<close> for the floats that are not finite are not
  JSON: no text that holds one of them in the place of a value is read.
\<close>

lemma parse_value_not_finite:
  "parse_value n (floatstr NaN @ rest) = None"
  "parse_value n (floatstr PosInf @ rest) = None"
  "parse_value n (floatstr NegInf @ rest) = None"
  by (cases n; simp add: parse_value.simps parse_number_def scan_sign_def scan_int_def is_digit_def)+

section \<open>The gateway and the tools, case by case\<close>



lemma dumps_ok:
  "depth v \<le> Suc (room py) \<Longrightarrow> dumps py indent v = Inr (iterencode indent 0 v)"
  by (simp add: dumps_def)


lemma dumps_document:
  "dumps py indent (JObj [(a, JStr x), (b, JStr y), (c, JBool z)])
     = Inr (iterencode indent 0 (JObj [(a, JStr x), (b, JStr y), (c, JBool z)]))"
  by (rule dumps_ok) simp

lemma attempt_sent: "snd (attempt client req sent) = sent @ [req]"
  by (simp add: attempt_def post_def split: sum.splits)

lemma attempt_raised: "client req = Inl e \<Longrightarrow> fst (attempt client req sent) = Inl e"
  by (simp add: attempt_def post_def)

lemma attempt_ok:
  "client req = Inr r \<Longrightarrow> 200 \<le> status_code r \<Longrightarrow> status_code r \<le> 299
   \<Longrightarrow> fst (attempt client req sent) = json r"
  by (simp add: attempt_def post_def raise_for_status_def)

lemma attempt_status:
  "client req = Inr r \<Longrightarrow> \<not> (200 \<le> status_code r \<and> status_code r \<le> 299)
   \<Longrightarrow> fst (attempt client req sent) = Inl (HTTPStatusError (status_error_message r) r)"
  by (auto simp: attempt_def post_def raise_for_status_def)

lemma api_post_sent:
  "snd (api_post client endpoint data sent) = sent @ [api_request endpoint data]"
  using attempt_sent [of client "api_request endpoint data" sent]
  by (cases "attempt client (api_request endpoint data) sent") (simp add: api_post_def)

lemma api_post_returns: "\<exists>data. fst (api_post client endpoint data0 sent) = Inr data"
  by (cases "attempt client (api_request endpoint data0) sent") (simp add: api_post_def)

lemma api_post_ok:
  "fst (attempt client (api_request endpoint data) sent) = Inr body
   \<Longrightarrow> fst (api_post client endpoint data sent) = Inr body"
  by (cases "attempt client (api_request endpoint data) sent") (simp add: api_post_def)

lemma api_post_timeout:
  "fst (attempt client (api_request endpoint data) sent) = Inl (TimeoutException p m)
   \<Longrightarrow> fst (api_post client endpoint data sent) =
       Inr (JObj [(''error'', JStr ''Request timed out. The API is taking longer than expected. Please try again.''),
                  (''error_type'', JStr ''timeout''),
                  (''success'', JBool False)])"
  by (cases "attempt client (api_request endpoint data) sent") (simp add: api_post_def)

lemma api_post_status:
  "fst (attempt client (api_request endpoint data) sent) = Inl (HTTPStatusError m r)
   \<Longrightarrow> fst (api_post client endpoint data sent) =
       Inr (JObj [(''error'', JStr (''API returned error: '' @ str_nat (status_code r))),
                  (''error_details'', JStr (response_text r)),
                  (''success'', JBool False)])"
  by (cases "attempt client (api_request endpoint data) sent") (simp add: api_post_def)

lemma api_post_other:
  "fst (attempt client (api_request endpoint data) sent) = Inl (OtherException name m)
   \<Longrightarrow> fst (api_post client endpoint data sent) =
       Inr (JObj [(''error'', JStr (''Request failed: '' @ m)),
                  (''error_type'', JStr name),
                  (''success'', JBool False)])"
  by (cases "attempt client (api_request endpoint data) sent") (simp add: api_post_def)

lemma invoke_unfold: "invoke py t client s sent = invoke_via py t (api_post client) s sent"
  by (cases t)
    (simp_all add: generate_story_def generate_episodic_beats_from_file_def ask_vector_db_def)

lemma invoke_via_returned:
  assumes "api (tool_endpoint t) (JObj [(tool_field t, JStr s)]) sent = (Inr data, sent')"
    and "dumps py (Some 2) data = Inr txt"
  shows "invoke_via py t api s sent = (Inr txt, sent')"
  using assms
  by (cases t)
    (simp_all add: generate_story_via_def generate_episodic_beats_from_file_via_def
      ask_vector_db_via_def)

lemma invoke_via_dumps_raised:
  assumes "api (tool_endpoint t) (JObj [(tool_field t, JStr s)]) sent = (Inr data, sent')"
    and "dumps py (Some 2) data = Inl e"
  shows "invoke_via py t api s sent =
    (Inr (iterencode None 0
            (JObj [(''error'', JStr (''Unexpected error: '' @ exc_str e)),
                   (''error_type'', JStr (type_name e)),
                   (''success'', JBool False)])),
     sent')"
  using assms
  by (cases t)
    (simp_all add: generate_story_via_def generate_episodic_beats_from_file_via_def
      ask_vector_db_via_def dumps_document)

lemma invoke_via_raised:
  assumes "api (tool_endpoint t) (JObj [(tool_field t, JStr s)]) sent = (Inl e, sent')"
  shows "invoke_via py t api s sent =
    (Inr (iterencode None 0
            (JObj [(''error'', JStr (''Unexpected error: '' @ exc_str e)),
                   (''error_type'', JStr (type_name e)),
                   (''success'', JBool False)])),
     sent')"
  using assms
  by (cases t)
    (simp_all add: generate_story_via_def generate_episodic_beats_from_file_via_def
      ask_vector_db_via_def dumps_document)

lemma invoke_sent: "snd (invoke py t client s sent) = sent @ [tool_request t s]"
proof -
  obtain data where d: "api_post client (tool_endpoint t) (JObj [(tool_field t, JStr s)]) sent
      = (Inr data, sent @ [tool_request t s])"
    using api_post_returns [of client "tool_endpoint t" "JObj [(tool_field t, JStr s)]" sent]
      api_post_sent [of client "tool_endpoint t" "JObj [(tool_field t, JStr s)]" sent]
    by (auto simp: prod_eq_iff tool_request_def)
  show ?thesis
  proof (cases "dumps py (Some 2) data")
    case (Inl e)
    with d show ?thesis by (simp add: invoke_unfold invoke_via_dumps_raised)
  next
    case (Inr out)
    with d show ?thesis by (simp add: invoke_unfold invoke_via_returned)
  qed
qed

lemma invoke_data:
  assumes "fst (api_post client (tool_endpoint t) (JObj [(tool_field t, JStr s)]) sent) = Inr data"
    and "depth data \<le> Suc (room py)"
  shows "fst (invoke py t client s sent) = Inr (iterencode (Some 2) 0 data)"
proof -
  have "api_post client (tool_endpoint t) (JObj [(tool_field t, JStr s)]) sent
      = (Inr data, sent @ [tool_request t s])"
    using assms(1) by (simp add: prod_eq_iff api_post_sent tool_request_def)
  then show ?thesis
    using dumps_ok [OF assms(2), of "Some 2"] by (simp add: invoke_unfold invoke_via_returned)
qed


lemma returned_json_iterencode:
  "fst res = Inr (iterencode indent 0 v) \<Longrightarrow> json_compliant v \<Longrightarrow> returned_json res = Some v"
  by (simp add: returned_json_def loads_iterencode)

lemma returned_json_document:
  "fst res = Inr (iterencode indent 0 (JObj [(a, JStr x), (b, JStr y), (c, JBool z)]))
   \<Longrightarrow> returned_json res = Some (JObj [(a, JStr x), (b, JStr y), (c, JBool z)])"
  by (rule returned_json_iterencode) simp_all

lemma invoke_attempt_ok:
  assumes "fst (attempt client (tool_request t s) sent) = Inr body"
    and "depth body \<le> Suc (room py)"
  shows "fst (invoke py t client s sent) = Inr (iterencode (Some 2) 0 body)"
  using assms(1) unfolding tool_request_def
  by (intro invoke_data api_post_ok assms(2))


lemma invoke_attempt_timeout:
  assumes "fst (attempt client (tool_request t s) sent) = Inl (TimeoutException p m)"
  shows "fst (invoke py t client s sent) =
    Inr (iterencode (Some 2) 0
      (JObj [(''error'', JStr ''Request timed out. The API is taking longer than expected. Please try again.''),
             (''error_type'', JStr ''timeout''),
             (''success'', JBool False)]))"
  using assms unfolding tool_request_def
  by (intro invoke_data api_post_timeout) simp_all

lemma invoke_attempt_status:
  assumes "fst (attempt client (tool_request t s) sent) = Inl (HTTPStatusError m r)"
  shows "fst (invoke py t client s sent) =
    Inr (iterencode (Some 2) 0
      (JObj [(''error'', JStr (''API returned error: '' @ str_nat (status_code r))),
             (''error_details'', JStr (response_text r)),
             (''success'', JBool False)]))"
  using assms unfolding tool_request_def
  by (intro invoke_data api_post_status) simp_all

lemma invoke_attempt_other:
  assumes "fst (attempt client (tool_request t s) sent) = Inl (OtherException name m)"
  shows "fst (invoke py t client s sent) =
    Inr (iterencode (Some 2) 0
      (JObj [(''error'', JStr (''Request failed: '' @ m)),
             (''error_type'', JStr name),
             (''success'', JBool False)]))"
  using assms unfolding tool_request_def
  by (intro invoke_data api_post_other) simp_all

lemma api_post_consults:
  "api_post client endpoint data sent
     = api_post (\<lambda>req. client (api_request endpoint data)) endpoint data sent"
  by (simp add: api_post_def attempt_def post_def)

lemma invoke_consults:
  "invoke py t client s sent = invoke py t (\<lambda>req. client (tool_request t s)) s sent"
proof -
  have "api_post client (tool_endpoint t) (JObj [(tool_field t, JStr s)])
      = api_post (\<lambda>req. client (tool_request t s)) (tool_endpoint t) (JObj [(tool_field t, JStr s)])"
    unfolding tool_request_def by (intro ext) (rule api_post_consults)
  then show ?thesis
    by (cases t)
      (simp_all add: generate_story_def generate_episodic_beats_from_file_def ask_vector_db_def
        generate_story_via_def generate_episodic_beats_from_file_via_def ask_vector_db_via_def)
qed

section \<open>Results of a tool invocation\<close>




text \<open>
  C2. When the request of a tool times out, in whichever phase, the returned text is a
  JSON document with \<^verbatim>\<open>success\<close> false, \<^verbatim>\<open>error_type\<close> equal to the string
  \<^verbatim>\<open>timeout\<close>, and the fixed timeout message as \<^verbatim>\<open>error\<close>.
\<close>

theorem timeout_gives_timeout_document:
  assumes "client (tool_request t s) = Inl (TimeoutException p m)"
  shows "returned_json (invoke py t client s sent) =
    Some (JObj [(''error'', JStr ''Request timed out. The API is taking longer than expected. Please try again.''),
                (''error_type'', JStr ''timeout''),
                (''success'', JBool False)])"
proof -
  have "fst (attempt client (tool_request t s) sent) = Inl (TimeoutException p m)"
    using assms by (rule attempt_raised)
  then show ?thesis
    by (rule returned_json_document [OF invoke_attempt_timeout])
qed

theorem timeout_gives_timeout_document_witness:
  "returned_json
     (invoke \<lparr>room = 1000, recursion_message = ''maximum recursion depth exceeded''\<rparr>
        Generate_story (\<lambda>req. Inl (TimeoutException ReadTimeout ''read timed out''))
        ''Tell me a story'' [])
   = Some (JObj [(''error'', JStr ''Request timed out. The API is taking longer than expected. Please try again.''),
                 (''error_type'', JStr ''timeout''),
                 (''success'', JBool False)])"
  using timeout_gives_timeout_document
    [where client = "\<lambda>req. Inl (TimeoutException ReadTimeout ''read timed out'')"
       and t = Generate_story and s = "''Tell me a story''" and p = ReadTimeout
       and m = "''read timed out''" and sent = "[]"
       and py = "\<lparr>room = 1000, recursion_message = ''maximum recursion depth exceeded''\<rparr>"]
  by simp



text \<open>
  C4. When the call fails with an exception that is neither a timeout nor an HTTP status
  error, raised by the post itself (connection refused, name resolution) or by reading
  the body of a 2xx response as JSON (malformed body), the returned text is a JSON
  document with \<^verbatim>\<open>success\<close> false, an \<^verbatim>\<open>error\<close> message that ends with the
  exception's \<^verbatim>\<open>str\<close>, and \<^verbatim>\<open>error_type\<close> equal to the name of its class, which is
  not empty as the class name is not.
\<close>

theorem other_failure_gives_typed_document:
  assumes "client (tool_request t s) = Inl (OtherException name m)
         \<or> (\<exists>r. client (tool_request t s) = Inr r \<and> 200 \<le> status_code r
                \<and> status_code r \<le> 299 \<and> json r = Inl (OtherException name m))"
    and "name \<noteq> []"
  shows "\<exists>kind. returned_json (invoke py t client s sent) =
            Some (JObj [(''error'', JStr (''Request failed: '' @ m)),
                        (''error_type'', JStr kind),
                        (''success'', JBool False)])
          \<and> kind = name \<and> kind \<noteq> []"
proof -
  have "fst (attempt client (tool_request t s) sent) = Inl (OtherException name m)"
    using assms(1) by (auto simp: attempt_raised attempt_ok)
  then have "returned_json (invoke py t client s sent) =
            Some (JObj [(''error'', JStr (''Request failed: '' @ m)),
                        (''error_type'', JStr name),
                        (''success'', JBool False)])"
    by (rule returned_json_document [OF invoke_attempt_other])
  with assms(2) show ?thesis by simp
qed

theorem other_failure_gives_typed_document_witness:
  "returned_json
     (invoke \<lparr>room = 1000, recursion_message = ''maximum recursion depth exceeded''\<rparr>
        Generate_story
        (\<lambda>req. Inl (OtherException ''ConnectError'' ''All connection attempts failed''))
        ''Tell me a story'' [])
   = Some (JObj [(''error'', JStr ''Request failed: All connection attempts failed''),
                 (''error_type'', JStr ''ConnectError''),
                 (''success'', JBool False)])"
  using other_failure_gives_typed_document
    [where client = "\<lambda>req. Inl (OtherException ''ConnectError'' ''All connection attempts failed'')"
       and t = Generate_story and s = "''Tell me a story''" and name = "''ConnectError''"
       and m = "''All connection attempts failed''" and sent = "[]"
       and py = "\<lparr>room = 1000, recursion_message = ''maximum recursion depth exceeded''\<rparr>"]
  by simp

text \<open>
  C5, as the specification states it, promises a syntactically valid JSON string for
  every behaviour of the upstream. The body \<^verbatim>\<open>[1e400, -1e400]\<close> is JSON;
  \<^verbatim>\<open>r.json()\<close> returns the two infinities for it, and the tool returns a text with the
  tokens \<^verbatim>\<open>Infinity\<close> and \<^verbatim>\<open>-Infinity\<close>, which is not JSON.
\<close>

theorem infinities_returned_as_invalid_json:
  "fst (invoke \<lparr>room = 1000, recursion_message = ''maximum recursion depth exceeded''\<rparr>
          Ask_vector_db
          (\<lambda>req. Inr (Response 200 ''OK'' ''[1e400, -1e400]''
                        (Inr (JArr [JFloat PosInf, JFloat NegInf]))))
          ''who is Zoya?'' [])
     = Inr (CHR ''['' # CHR 0x0A # ''  Infinity,'' @ CHR 0x0A # ''  -Infinity'' @ [CHR 0x0A, CHR '']''])
   \<and> loads (CHR ''['' # CHR 0x0A # ''  Infinity,'' @ CHR 0x0A # ''  -Infinity'' @ [CHR 0x0A, CHR '']''])
     = None"
proof -
  let ?py = "\<lparr>room = 1000, recursion_message = ''maximum recursion depth exceeded''\<rparr>"
  let ?r = "Response 200 ''OK'' ''[1e400, -1e400]'' (Inr (JArr [JFloat PosInf, JFloat NegInf]))"
  let ?out = "CHR ''['' # CHR 0x0A # ''  Infinity,'' @ CHR 0x0A # ''  -Infinity'' @ [CHR 0x0A, CHR '']'']"
  have "fst (attempt (\<lambda>req. Inr ?r) (tool_request Ask_vector_db ''who is Zoya?'') [])
      = json ?r"
    by (rule attempt_ok) simp_all
  then have "fst (attempt (\<lambda>req. Inr ?r) (tool_request Ask_vector_db ''who is Zoya?'') [])
      = Inr (JArr [JFloat PosInf, JFloat NegInf])"
    by simp
  then have a: "fst (invoke ?py Ask_vector_db (\<lambda>req. Inr ?r) ''who is Zoya?'' [])
      = Inr (iterencode (Some 2) 0 (JArr [JFloat PosInf, JFloat NegInf]))"
    by (rule invoke_attempt_ok) simp
  have b: "iterencode (Some 2) 0 (JArr [JFloat PosInf, JFloat NegInf]) = ?out"
    by (simp add: newline_indent_def item_separator_def numeral_2_eq_2)
  show ?thesis
  proof (intro conjI)
    show "fst (invoke ?py Ask_vector_db (\<lambda>req. Inr ?r) ''who is Zoya?'' []) = Inr ?out"
      by (subst b [symmetric]) (rule a)
    show "loads ?out = None"
      by code_simp
  qed
qed

text \<open>
  C5, amended. For every argument and every behaviour of the awaited gateway call,
  returning or raising, a tool returns a text and raises nothing; so does every tool
  over \<^verbatim>\<open>_api_post\<close>, whatever the client does. The text parses as JSON whenever the
  gateway's result holds no float that is not finite. When the awaited call raises, or
  \<^verbatim>\<open>json.dumps\<close> of its result does, the tool itself builds the error document:
  \<^verbatim>\<open>error\<close> with the exception's \<^verbatim>\<open>str\<close>, \<^verbatim>\<open>error_type\<close> with its class name,
  \<^verbatim>\<open>success\<close> false.
\<close>

theorem tools_always_return_text:
  "(\<exists>out. fst (invoke_via py t api s sent) = Inr out)
   \<and> (\<exists>out. fst (invoke py t client s sent) = Inr out)
   \<and> (\<forall>data. fst (api (tool_endpoint t) (JObj [(tool_field t, JStr s)]) sent) = Inr data \<longrightarrow>
          json_compliant data \<longrightarrow>
          (\<exists>v. returned_json (invoke_via py t api s sent) = Some v))
   \<and> (\<forall>e. fst (api (tool_endpoint t) (JObj [(tool_field t, JStr s)]) sent) = Inl e \<longrightarrow>
          returned_json (invoke_via py t api s sent) =
            Some (JObj [(''error'', JStr (''Unexpected error: '' @ exc_str e)),
                        (''error_type'', JStr (type_name e)),
                        (''success'', JBool False)]))
   \<and> (\<forall>data e. fst (api (tool_endpoint t) (JObj [(tool_field t, JStr s)]) sent) = Inr data \<longrightarrow>
          dumps py (Some 2) data = Inl e \<longrightarrow>
          returned_json (invoke_via py t api s sent) =
            Some (JObj [(''error'', JStr (''Unexpected error: '' @ exc_str e)),
                        (''error_type'', JStr (type_name e)),
                        (''success'', JBool False)]))"
proof -
  let ?call = "\<lambda>api. api (tool_endpoint t) (JObj [(tool_field t, JStr s)]) sent"
  have always: "\<exists>out. fst (invoke_via py t f s sent) = Inr out" for f :: gateway
  proof -
    obtain res sent' where p: "?call f = (res, sent')" by (cases "?call f") auto
    show ?thesis
    proof (cases res)
      case (Inl e)
      with p show ?thesis by (simp add: invoke_via_raised)
    next
      case (Inr data)
      show ?thesis
      proof (cases "dumps py (Some 2) data")
        case (Inl e)
        with p Inr show ?thesis by (simp add: invoke_via_dumps_raised)
      next
        case inner: (Inr out)
        with p Inr show ?thesis by (simp add: invoke_via_returned)
      qed
    qed
  qed
  have raised: "returned_json (invoke_via py t api s sent) =
            Some (JObj [(''error'', JStr (''Unexpected error: '' @ exc_str e)),
                        (''error_type'', JStr (type_name e)),
                        (''success'', JBool False)])"
    if "fst (?call api) = Inl e" for e
  proof -
    from that obtain sent' where "?call api = (Inl e, sent')"
      by (cases "?call api") auto
    then show ?thesis
      by (simp add: invoke_via_raised returned_json_document)
  qed
  have dumps_raised: "returned_json (invoke_via py t api s sent) =
            Some (JObj [(''error'', JStr (''Unexpected error: '' @ exc_str e)),
                        (''error_type'', JStr (type_name e)),
                        (''success'', JBool False)])"
    if "fst (?call api) = Inr data" and "dumps py (Some 2) data = Inl e" for data e
  proof -
    from that(1) obtain sent' where "?call api = (Inr data, sent')"
      by (cases "?call api") auto
    with that(2) show ?thesis
      by (simp add: invoke_via_dumps_raised returned_json_document)
  qed
  have compliant: "\<exists>v. returned_json (invoke_via py t api s sent) = Some v"
    if "fst (?call api) = Inr data" and "json_compliant data" for data
  proof (cases "dumps py (Some 2) data")
    case (Inl e)
    with that(1) show ?thesis using dumps_raised by blast
  next
    case (Inr out)
    then have out: "out = iterencode (Some 2) 0 data"
      by (auto simp: dumps_def split: if_splits)
    from that(1) obtain sent' where "?call api = (Inr data, sent')"
      by (cases "?call api") auto
    with Inr have "fst (invoke_via py t api s sent) = Inr (iterencode (Some 2) 0 data)"
      by (simp add: invoke_via_returned out)
    then show ?thesis
      using that(2) by (simp add: returned_json_iterencode)
  qed
  from always [of api] always [of "api_post client"] raised dumps_raised compliant
  show ?thesis
    unfolding invoke_unfold by blast
qed

theorem tools_always_return_text_witness:
  "returned_json
     (invoke_via \<lparr>room = 1000, recursion_message = ''maximum recursion depth exceeded''\<rparr>
        Generate_story
        (\<lambda>endpoint data sent. (Inl (OtherException ''RuntimeError'' ''Event loop is closed''), sent))
        ''Tell me a story'' [])
   = Some (JObj [(''error'', JStr ''Unexpected error: Event loop is closed''),
                 (''error_type'', JStr ''RuntimeError''),
                 (''success'', JBool False)])"
  using tools_always_return_text
    [where t = Generate_story
       and api = "\<lambda>endpoint data sent. (Inl (OtherException ''RuntimeError'' ''Event loop is closed''), sent)"
       and s = "''Tell me a story''" and sent = "[]"
       and client = "\<lambda>req. Inl (OtherException ''RuntimeError'' ''Event loop is closed'')"
       and py = "\<lparr>room = 1000, recursion_message = ''maximum recursion depth exceeded''\<rparr>"]
  by simp

section \<open>What the gateway sends\<close>

text \<open>
  C6. For every string argument, \<^verbatim>\<open>generate_story\<close> posts exactly once: to the
  requests that went out before, its run adds one request, to the base URL followed by
  \<^verbatim>\<open>/story\<close>, with the body \<^verbatim>\<open>{"question": s}\<close>.
  \<^verbatim>\<open>generate_episodic_beats_from_file\<close> posts exactly once, to
  \<^verbatim>\<open>/episodic_beats_from_file\<close>, with the body \<^verbatim>\<open>{"file_path": s}\<close>, and
  \<^verbatim>\<open>ask_vector_db\<close> exactly once, to \<^verbatim>\<open>/ask\<close>, with the body
  \<^verbatim>\<open>{"question": s}\<close>. Whatever the client answers, no second request follows, and
  the client's answer to that one request is all that a tool takes from the client.
\<close>

theorem tools_send_exactly_one_post:
  "snd (generate_story py client s sent) =
     sent @ [\<lparr>url = API_BASE @ ''/story'',
              json_data = JObj [(''question'', JStr s)],
              headers = [(''Content-Type'', ''application/json'')],
              timeout = \<lparr>connect_timeout = 600, read_timeout = 600,
                         write_timeout = 600, pool_timeout = 600\<rparr>\<rparr>]
   \<and> snd (generate_episodic_beats_from_file py client s sent) =
     sent @ [\<lparr>url = API_BASE @ ''/episodic_beats_from_file'',
              json_data = JObj [(''file_path'', JStr s)],
              headers = [(''Content-Type'', ''application/json'')],
              timeout = \<lparr>connect_timeout = 600, read_timeout = 600,
                         write_timeout = 600, pool_timeout = 600\<rparr>\<rparr>]
   \<and> snd (ask_vector_db py client s sent) =
     sent @ [\<lparr>url = API_BASE @ ''/ask'',
              json_data = JObj [(''question'', JStr s)],
              headers = [(''Content-Type'', ''application/json'')],
              timeout = \<lparr>connect_timeout = 600, read_timeout = 600,
                         write_timeout = 600, pool_timeout = 600\<rparr>\<rparr>]
   \<and> generate_story py client s sent =
     generate_story py
       (\<lambda>req. client \<lparr>url = API_BASE @ ''/story'',
                       json_data = JObj [(''question'', JStr s)],
                       headers = [(''Content-Type'', ''application/json'')],
                       timeout = \<lparr>connect_timeout = 600, read_timeout = 600,
                                  write_timeout = 600, pool_timeout = 600\<rparr>\<rparr>) s sent
   \<and> generate_episodic_beats_from_file py client s sent =
     generate_episodic_beats_from_file py
       (\<lambda>req. client \<lparr>url = API_BASE @ ''/episodic_beats_from_file'',
                       json_data = JObj [(''file_path'', JStr s)],
                       headers = [(''Content-Type'', ''application/json'')],
                       timeout = \<lparr>connect_timeout = 600, read_timeout = 600,
                                  write_timeout = 600, pool_timeout = 600\<rparr>\<rparr>) s sent
   \<and> ask_vector_db py client s sent =
     ask_vector_db py
       (\<lambda>req. client \<lparr>url = API_BASE @ ''/ask'',
                       json_data = JObj [(''question'', JStr s)],
                       headers = [(''Content-Type'', ''application/json'')],
                       timeout = \<lparr>connect_timeout = 600, read_timeout = 600,
                                  write_timeout = 600, pool_timeout = 600\<rparr>\<rparr>) s sent"
  using invoke_sent [of py Generate_story client s sent]
    invoke_sent [of py Generate_episodic_beats_from_file client s sent]
    invoke_sent [of py Ask_vector_db client s sent]
    invoke_consults [of py Generate_story client s sent]
    invoke_consults [of py Generate_episodic_beats_from_file client s sent]
    invoke_consults [of py Ask_vector_db client s sent]
  by (simp add: tool_request_def api_request_def)

text \<open>
  C8. The one post of a gateway call, and so the one post of every tool invocation, is
  made with a timeout of 600 seconds for each of the four phases: connecting, reading,
  writing and acquiring a connection from the pool. The request with these timeouts is
  the one that went out, and the one whose answer the gateway takes from the client.
\<close>

theorem every_call_has_600s_timeouts:
  "map timeout (snd (api_post client endpoint data [])) =
     [\<lparr>connect_timeout = 600, read_timeout = 600, write_timeout = 600, pool_timeout = 600\<rparr>]
   \<and> map timeout (snd (invoke py t client s [])) =
     [\<lparr>connect_timeout = 600, read_timeout = 600, write_timeout = 600, pool_timeout = 600\<rparr>]
   \<and> api_post client endpoint data sent =
     api_post
       (\<lambda>req. client \<lparr>url = API_BASE @ endpoint, json_data = data,
                       headers = [(''Content-Type'', ''application/json'')],
                       timeout = \<lparr>connect_timeout = 600, read_timeout = 600,
                                  write_timeout = 600, pool_timeout = 600\<rparr>\<rparr>)
       endpoint data sent"
  using api_post_consults [of client endpoint data sent]
  by (simp add: api_post_sent invoke_sent tool_request_def api_request_def)

section \<open>The check of the upstream-declared flag\<close>

text \<open>
  C9. Whatever the awaited gateway call returns or raises, each tool gives the same
  result as the tool without the \<^verbatim>\<open>success == False\<close> branch: the branch returns the
  string that the default path returns, so the tools as written and the tools with the
  branch removed are equal as functions.
\<close>

theorem success_check_is_redundant:
  "generate_story_via = generate_story_unchecked
   \<and> generate_episodic_beats_from_file_via = generate_episodic_beats_from_file_unchecked
   \<and> ask_vector_db_via = ask_vector_db_unchecked"
proof (intro conjI ext)
  fix py :: interpreter and api :: gateway and s :: string and sent :: "request list"
  show "generate_story_via py api s sent = generate_story_unchecked py api s sent"
    unfolding generate_story_via_def generate_story_unchecked_def
    by (simp split: prod.splits sum.splits)
  show "generate_episodic_beats_from_file_via py api s sent =
        generate_episodic_beats_from_file_unchecked py api s sent"
    unfolding generate_episodic_beats_from_file_via_def
      generate_episodic_beats_from_file_unchecked_def
    by (simp split: prod.splits sum.splits)
  show "ask_vector_db_via py api s sent = ask_vector_db_unchecked py api s sent"
    unfolding ask_vector_db_via_def ask_vector_db_unchecked_def
    by (simp split: prod.splits sum.splits)
qed




section \<open>The shape of the failure documents\<close>

text \<open>
  C7, as the specification states it, asks for a kind field in every failure document.
  The document for an HTTP status failure has the keys \<^verbatim>\<open>error\<close>,
  \<^verbatim>\<open>error_details\<close> and \<^verbatim>\<open>success\<close> and no \<^verbatim>\<open>error_type\<close>: here for a 500.
\<close>

theorem status_document_has_no_kind_field:
  "returned_json
     (invoke \<lparr>room = 1000, recursion_message = ''maximum recursion depth exceeded''\<rparr>
        Generate_story
        (\<lambda>req. Inr (Response 500 ''Server error'' ''Internal Server Error''
                      (Inl (OtherException ''JSONDecodeError'' ''Expecting value''))))
        ''Tell me a story'' [])
   = Some (JObj [(''error'', JStr ''API returned error: 500''),
                 (''error_details'', JStr ''Internal Server Error''),
                 (''success'', JBool False)])
   \<and> dict_get (JObj [(''error'', JStr ''API returned error: 500''),
                      (''error_details'', JStr ''Internal Server Error''),
                      (''success'', JBool False)]) ''error_type'' = None"
proof -
  let ?r = "Response 500 ''Server error'' ''Internal Server Error''
              (Inl (OtherException ''JSONDecodeError'' ''Expecting value''))"
  have "fst (attempt (\<lambda>req. Inr ?r) (tool_request Generate_story ''Tell me a story'') [])
      = Inl (HTTPStatusError (status_error_message ?r) ?r)"
    by (rule attempt_status) simp_all
  from returned_json_document [OF invoke_attempt_status [OF this]]
  show ?thesis by (simp add: str_nat_500)
qed

text \<open>
  C7, amended. Every failure of the call that the gateway classifies is returned as a
  JSON document with \<^verbatim>\<open>success\<close> false and a message under \<^verbatim>\<open>error\<close>. For a
  timeout and for any other exception the document also has the kind under
  \<^verbatim>\<open>error_type\<close>; for an HTTP status failure it has the text of the response body
  under \<^verbatim>\<open>error_details\<close> and no \<^verbatim>\<open>error_type\<close>.
\<close>

theorem failure_documents_shape:
  assumes "fst (attempt client (tool_request t s) sent) = Inl e"
  shows "\<exists>kvs msg. returned_json (invoke py t client s sent) = Some (JObj kvs)
      \<and> map_of kvs ''success'' = Some (JBool False)
      \<and> map_of kvs ''error'' = Some (JStr msg)
      \<and> (case e of
            HTTPStatusError m r \<Rightarrow>
              map_of kvs ''error_details'' = Some (JStr (response_text r))
              \<and> map_of kvs ''error_type'' = None
          | TimeoutException p m \<Rightarrow>
              map_of kvs ''error_type'' = Some (JStr ''timeout'')
              \<and> map_of kvs ''error_details'' = None
          | OtherException name m \<Rightarrow>
              map_of kvs ''error_type'' = Some (JStr name)
              \<and> map_of kvs ''error_details'' = None)"
proof (cases e)
  case (TimeoutException p m)
  with assms have "fst (attempt client (tool_request t s) sent) = Inl (TimeoutException p m)"
    by simp
  from returned_json_document [OF invoke_attempt_timeout [OF this]] TimeoutException
  show ?thesis by simp
next
  case (HTTPStatusError m r)
  with assms have "fst (attempt client (tool_request t s) sent) = Inl (HTTPStatusError m r)"
    by simp
  from returned_json_document [OF invoke_attempt_status [OF this]] HTTPStatusError
  show ?thesis by simp
next
  case (OtherException name m)
  with assms have "fst (attempt client (tool_request t s) sent) = Inl (OtherException name m)"
    by simp
  from returned_json_document [OF invoke_attempt_other [OF this]] OtherException
  show ?thesis by simp
qed

theorem failure_documents_shape_witness:
  "\<exists>kvs msg.
     returned_json
       (invoke \<lparr>room = 1000, recursion_message = ''maximum recursion depth exceeded''\<rparr>
          Generate_story
          (\<lambda>req. Inr (Response 404 ''Client error'' ''Not Found''
                        (Inl (OtherException ''JSONDecodeError'' ''Expecting value''))))
          ''Tell me a story'' []) = Some (JObj kvs)
     \<and> map_of kvs ''success'' = Some (JBool False)
     \<and> map_of kvs ''error'' = Some (JStr msg)
     \<and> map_of kvs ''error_details'' = Some (JStr ''Not Found'')
     \<and> map_of kvs ''error_type'' = None"
proof -
  let ?r = "Response 404 ''Client error'' ''Not Found''
              (Inl (OtherException ''JSONDecodeError'' ''Expecting value''))"
  have "fst (attempt (\<lambda>req. Inr ?r) (tool_request Generate_story ''Tell me a story'') [])
      = Inl (HTTPStatusError (status_error_message ?r) ?r)"
    by (rule attempt_status) simp_all
  from failure_documents_shape [OF this,
      of "\<lparr>room = 1000, recursion_message = ''maximum recursion depth exceeded''\<rparr>"]
  show ?thesis by simp
qed

end
